theory Spec2Isabelle
  imports Main "HOL-Library.Word" "HOL-Library.AList"
begin

section \<open>JavaScript values\<close>

text \<open>
  A JavaScript string is a sequence of UTF-16 code units; \<open>length\<close> and \<open>split\<close> count
  and compare code units. String literals of the source that are plain ASCII are written
  \<open>ascii ''...''\<close>.
\<close>

type_synonym unit16 = "16 word"

type_synonym jstring = "unit16 list"

definition code_unit :: "char \<Rightarrow> unit16" where
  "code_unit c = of_nat (of_char c)"

definition ascii :: "string \<Rightarrow> jstring" where
  "ascii s = map code_unit s"

text \<open>
  The values that \<open>request.json()\<close> and the database client hand to the route: the JSON
  values, and \<open>undefined\<close> for what is absent. An object is the list of its own
  properties; a property is read with \<open>prop_of\<close>, the first binding of the key. A
  number is kept as the integer it denotes (identifiers and counters are integers; the
  schemas below reject every number alike). The numbers of the language are doubles:
  the safe integers, of magnitude below \<open>2^53\<close>, are the ones a double holds exactly.
\<close>

datatype jsval =
    JUndefined
  | JNull
  | JBool bool
  | JNum int
  | JStr jstring
  | JArr "jsval list"
  | JObj "(jstring \<times> jsval) list"

definition prop_of :: "(jstring \<times> jsval) list \<Rightarrow> jstring \<Rightarrow> jsval" where
  "prop_of kvs k = (case map_of kvs k of None \<Rightarrow> JUndefined | Some v \<Rightarrow> v)"

text \<open>
  \<open>String.prototype.split\<close> with a separator of one code unit: the text is cut at every
  occurrence of the separator, and the pieces (possibly empty) are returned in order.
\<close>

fun split_acc :: "unit16 \<Rightarrow> jstring \<Rightarrow> jstring \<Rightarrow> jstring list" where
  "split_acc sep cur [] = [rev cur]"
| "split_acc sep cur (c # cs) =
     (if c = sep then rev cur # split_acc sep [] cs else split_acc sep (c # cur) cs)"

definition js_split :: "jstring \<Rightarrow> unit16 \<Rightarrow> jstring list" where
  "js_split s sep = split_acc sep [] s"

definition comma :: unit16 where
  "comma = code_unit CHR '',''"

section \<open>The schema validator\<close>

text \<open>
  The combinators of the validation library that the route uses. A schema maps an input
  to a status, the parsed value and the issues found. A failed type check aborts; a
  failed check or refinement marks the result dirty and parsing goes on, so that every
  issue of every field is reported. The message texts of the source are display strings
  in Korean; they are named here by what they say.
\<close>

datatype issue_code = invalid_type | too_small | custom

datatype message =
    Default_message
  | Name_kr_required
  | Note_required
  | Note_comma_separated

datatype issue = Issue (issue_path: "jstring list") (issue_code: issue_code) (issue_message: message)

datatype status = Valid | Dirty | Aborted

datatype parse_result = ParseResult (status: status) (parsed: jsval) (issues: "issue list")

type_synonym schema = "jsval \<Rightarrow> parse_result"

definition z_string :: schema where
  "z_string v =
     (case v of
        JStr s \<Rightarrow> ParseResult Valid (JStr s) []
      | _ \<Rightarrow> ParseResult Aborted JUndefined [Issue [] invalid_type Default_message])"

definition z_min :: "nat \<Rightarrow> message \<Rightarrow> schema \<Rightarrow> schema" where
  "z_min n msg sch v =
     (let r = sch v in
      if status r = Aborted then r
      else (case parsed r of
              JStr s \<Rightarrow>
                if length s < n
                then ParseResult Dirty (parsed r) (issues r @ [Issue [] too_small msg])
                else r
            | _ \<Rightarrow> r))"

definition z_refine :: "(jstring \<Rightarrow> bool) \<Rightarrow> message \<Rightarrow> schema \<Rightarrow> schema" where
  "z_refine check msg sch v =
     (let r = sch v in
      if status r = Aborted then r
      else (case parsed r of
              JStr s \<Rightarrow>
                if check s then r
                else ParseResult Dirty (parsed r) (issues r @ [Issue [] custom msg])
            | _ \<Rightarrow> r))"

definition z_optional :: "schema \<Rightarrow> schema" where
  "z_optional sch v = (if v = JUndefined then ParseResult Valid JUndefined [] else sch v)"

definition merge_status :: "status list \<Rightarrow> status" where
  "merge_status ss =
     (if Aborted \<in> set ss then Aborted else if Dirty \<in> set ss then Dirty else Valid)"

definition at_key :: "jstring \<Rightarrow> issue \<Rightarrow> issue" where
  "at_key k i = Issue (k # issue_path i) (issue_code i) (issue_message i)"

text \<open>
  An object schema parses every key of its shape, in order, against the property of that
  name (\<open>undefined\<close> when the input has none), collects all issues under the key, and
  keeps only the keys of the shape. A key whose parsed value is \<open>undefined\<close> is kept only
  if the input has it.
\<close>

definition z_object :: "(jstring \<times> schema) list \<Rightarrow> schema" where
  "z_object shape v =
     (case v of
        JObj kvs \<Rightarrow>
          (let rs = map (\<lambda>(k, sch). (k, sch (prop_of kvs k))) shape;
               st = merge_status (map (\<lambda>(k, r). status r) rs);
               errs = concat (map (\<lambda>(k, r). map (at_key k) (issues r)) rs)
           in if st = Aborted then ParseResult Aborted JUndefined errs
              else ParseResult st
                     (JObj (map (\<lambda>(k, r). (k, parsed r))
                        (filter (\<lambda>(k, r). parsed r \<noteq> JUndefined \<or> k \<in> fst ` set kvs) rs)))
                     errs)
      | _ \<Rightarrow> ParseResult Aborted JUndefined [Issue [] invalid_type Default_message])"

text \<open>
  \<open>safeParse\<close> is what the form resolver runs: the parsed value when the status is valid,
  the issues otherwise.
\<close>

definition safeParse :: "schema \<Rightarrow> jsval \<Rightarrow> issue list + jsval" where
  "safeParse sch v =
     (let r = sch v in if status r = Valid then Inr (parsed r) else Inl (issues r))"

section \<open>The form schema of the suggestion page\<close>

definition note_refinement :: "jstring \<Rightarrow> bool" where
  "note_refinement note = (length (js_split note comma) > 1)"

definition note_field :: schema where
  "note_field = z_refine note_refinement Note_comma_separated (z_min 1 Note_required z_string)"

definition formSchema :: schema where
  "formSchema = z_object
     [(ascii ''name_kr'', z_min 1 Name_kr_required z_string),
      (ascii ''name_en'', z_string),
      (ascii ''note'', note_field),
      (ascii ''region'', z_optional z_string),
      (ascii ''farm'', z_optional z_string),
      (ascii ''variety'', z_optional z_string),
      (ascii ''process'', z_optional z_string),
      (ascii ''source'', z_optional z_string)]"

section \<open>The server action of the suggestion page\<close>

text \<open>
  What can be thrown inside the action: a \<open>TypeError\<close> of the language, the
  \<open>SyntaxError\<close> of a body that is not JSON, the validator's \<open>ZodError\<close> with its
  issues, and whatever the database client rejects with. An awaited promise that rejects
  throws its reason.
\<close>

datatype thrown = TypeError | SyntaxError | ZodError "issue list" | Rejected jsval

definition parse :: "schema \<Rightarrow> jsval \<Rightarrow> thrown + jsval" where
  "parse sch v = (case safeParse sch v of Inl errs \<Rightarrow> Inl (ZodError errs) | Inr d \<Rightarrow> Inr d)"

text \<open>
  The members of \<open>CoffeeInfoField\<close> that the route names. The enumeration is declared in
  \<open>../types/coffee\<close>; the string of each member is the parameter \<open>fld\<close> of the
  definitions below.
\<close>

datatype CoffeeInfoField =
    NAME_KR | NAME_EN | NOTE | REGION | FARM | VARIETY | PROCESS | SOURCE | ID | USER_SUBMITTED

text \<open>
  An object literal with computed keys: a key written twice keeps its first position and
  its last value.
\<close>

definition object_literal :: "(jstring \<times> 'a) list \<Rightarrow> (jstring \<times> 'a) list" where
  "object_literal kvs = foldl (\<lambda>acc (k, v). AList.update k v acc) [] kvs"

definition CoffeeInfoDTO :: "(CoffeeInfoField \<Rightarrow> jstring) \<Rightarrow> schema" where
  "CoffeeInfoDTO fld = z_object (object_literal
     [(fld NAME_KR, z_string),
      (fld NAME_EN, z_string),
      (fld NOTE, z_string),
      (fld REGION, z_string),
      (fld FARM, z_string),
      (fld VARIETY, z_string),
      (fld PROCESS, z_string),
      (fld SOURCE, z_string)])"

definition nullish :: "jsval \<Rightarrow> bool" where
  "nullish v = (v = JUndefined \<or> v = JNull)"

fun truthy :: "jsval \<Rightarrow> bool" where
  "truthy JUndefined = False"
| "truthy JNull = False"
| "truthy (JBool b) = b"
| "truthy (JNum n) = (n \<noteq> 0)"
| "truthy (JStr s) = (s \<noteq> [])"
| "truthy (JArr xs) = True"
| "truthy (JObj kvs) = True"

definition js_or :: "jsval \<Rightarrow> jsval \<Rightarrow> jsval" where
  "js_or a b = (if truthy a then a else b)"

text \<open>
  Reading a property \<open>v.k\<close> or \<open>v[k]\<close>: a \<open>TypeError\<close> on \<open>null\<close> and \<open>undefined\<close>,
  the own property of an object, and \<open>undefined\<close> on a primitive or an array. This is
  the reading of a key that is not a member of a built-in prototype: the keys the route
  writes out are not, and the string of \<open>ID\<close> is taken not to be one.
\<close>

fun member :: "jsval \<Rightarrow> jstring \<Rightarrow> jsval" where
  "member (JObj kvs) k = prop_of kvs k"
| "member v k = JUndefined"

definition get_prop :: "jsval \<Rightarrow> jstring \<Rightarrow> thrown + jsval" where
  "get_prop v k = (if nullish v then Inl TypeError else Inr (member v k))"

text \<open>
  The operator \<open>"properties" in v\<close>: a \<open>TypeError\<close> when \<open>v\<close> is not an object; an array
  has no such key.
\<close>

fun has_properties :: "jsval \<Rightarrow> thrown + bool" where
  "has_properties (JObj kvs) = Inr (ascii ''properties'' \<in> fst ` set kvs)"
| "has_properties (JArr xs) = Inr False"
| "has_properties v = Inl TypeError"

text \<open>
  Conversion to a string, as a template literal does it. A safe integer is printed in
  plain decimal notation. What the runtime prints for a number outside the safe
  integers (rounded digits, exponent notation from \<open>10^21\<close> on) is the parameter
  \<open>other\<close>. An array is its elements joined by commas, an object is
  \<open>[object Object]\<close>.
\<close>

definition digit_char :: "nat \<Rightarrow> char" where
  "digit_char d = ''0123456789'' ! d"

fun decimal :: "nat \<Rightarrow> string" where
  "decimal n = (if n < 10 then [digit_char n] else decimal (n div 10) @ [digit_char (n mod 10)])"

declare decimal.simps [simp del]

definition decimal_of_int :: "int \<Rightarrow> jstring" where
  "decimal_of_int n =
     (if n < 0 then ascii ''-'' @ ascii (decimal (nat (- n))) else ascii (decimal (nat n)))"

definition number_to_string :: "(int \<Rightarrow> jstring) \<Rightarrow> int \<Rightarrow> jstring" where
  "number_to_string other n = (if \<bar>n\<bar> < 2 ^ 53 then decimal_of_int n else other n)"

fun join :: "jstring \<Rightarrow> jstring list \<Rightarrow> jstring" where
  "join sep [] = []"
| "join sep [s] = s"
| "join sep (s # t # ts) = s @ sep @ join sep (t # ts)"

fun to_string :: "(int \<Rightarrow> jstring) \<Rightarrow> jsval \<Rightarrow> jstring" where
  "to_string other JUndefined = ascii ''undefined''"
| "to_string other JNull = ascii ''null''"
| "to_string other (JBool b) = (if b then ascii ''true'' else ascii ''false'')"
| "to_string other (JNum n) = number_to_string other n"
| "to_string other (JStr s) = s"
| "to_string other (JArr xs) =
     join [comma] (map (\<lambda>x. if nullish x then [] else to_string other x) xs)"
| "to_string other (JObj kvs) = ascii ''[object Object]''"

text \<open>
  \<open>redirect\<close> answers with status 302 and the URL as the \<open>Location\<close> header. The URLs
  of the theorems below are ASCII, which a header holds as it is.
\<close>

datatype http_response = Response (http_status: nat) (location: jstring)

definition redirect :: "jstring \<Rightarrow> http_response" where
  "redirect url = Response 302 url"

text \<open>
  The number the action reads from the response: \<open>0\<close> unless the response is truthy and
  has \<open>properties\<close>, else \<open>response.properties[ID]?.unique_id.number\<close>.
\<close>

definition extract_number :: "(CoffeeInfoField \<Rightarrow> jstring) \<Rightarrow> jsval \<Rightarrow> thrown + jsval" where
  "extract_number fld response =
     (if \<not> truthy response then Inr (JNum 0)
      else (case has_properties response of
              Inl e \<Rightarrow> Inl e
            | Inr False \<Rightarrow> Inr (JNum 0)
            | Inr True \<Rightarrow>
                (case get_prop (member response (ascii ''properties'')) (fld ID) of
                   Inl e \<Rightarrow> Inl e
                 | Inr idprop \<Rightarrow>
                     if nullish idprop then Inr JUndefined
                     else get_prop (member idprop (ascii ''unique_id'')) (ascii ''number''))))"

text \<open>
  A request is the outcome of \<open>request.json()\<close>. The database client \<open>createCoffeeInfo\<close>
  lives in \<open>../.server/notion/service\<close>; it is a parameter: for the record it is given
  it resolves with a response or rejects. The action returns what it returns or throws,
  together with the records it passed to \<open>createCoffeeInfo\<close>, in order. The parameter
  \<open>other\<close> is the runtime's notation of the numbers outside the safe integers.
\<close>

datatype request = Request (json: "thrown + jsval")

text \<open>
  The object the action hands to \<open>CoffeeInfoDTO.parse\<close>: the eight fields destructured
  from the body, under the keys of \<open>CoffeeInfoField\<close>. Destructuring \<open>null\<close> or
  \<open>undefined\<close> throws.
\<close>

definition dto_input :: "(CoffeeInfoField \<Rightarrow> jstring) \<Rightarrow> jsval \<Rightarrow> thrown + jsval" where
  "dto_input fld body =
     (if nullish body then Inl TypeError
      else
        (let name_kr = member body (ascii ''name_kr'');
             name_en = member body (ascii ''name_en'');
             note = member body (ascii ''note'');
             region = member body (ascii ''region'');
             farm = member body (ascii ''farm'');
             variety = member body (ascii ''variety'');
             process = member body (ascii ''process'');
             source = member body (ascii ''source'')
         in Inr (JObj (object_literal
                  [(fld NAME_KR, name_kr),
                   (fld NAME_EN, name_en),
                   (fld NOTE, note),
                   (fld REGION, region),
                   (fld FARM, farm),
                   (fld VARIETY, variety),
                   (fld PROCESS, process),
                   (fld SOURCE, source)]))))"

definition action ::
  "(CoffeeInfoField \<Rightarrow> jstring) \<Rightarrow> (int \<Rightarrow> jstring) \<Rightarrow> (jsval \<Rightarrow> thrown + jsval) \<Rightarrow> request
     \<Rightarrow> (thrown + http_response) \<times> jsval list" where
  "action fld other createCoffeeInfo request =
     (case json request of
        Inl e \<Rightarrow> (Inl e, [])
      | Inr body \<Rightarrow>
          (case dto_input fld body of
             Inl e \<Rightarrow> (Inl e, [])
           | Inr input \<Rightarrow>
               (case parse (CoffeeInfoDTO fld) input of
                  Inl e \<Rightarrow> (Inl e, [])
                | Inr coffeeInfo \<Rightarrow>
                    (case createCoffeeInfo coffeeInfo of
                       Inl e \<Rightarrow> (Inl e, [coffeeInfo])
                     | Inr response \<Rightarrow>
                         (case extract_number fld response of
                            Inl e \<Rightarrow> (Inl e, [coffeeInfo])
                          | Inr number \<Rightarrow>
                              (Inr (redirect
                                     (ascii ''/coffee/'' @ to_string other (js_or number (JNum 0)))),
                               [coffeeInfo]))))))"

text \<open>
  The fields of the record, the name of each in the request body, and the record built
  from a body when the member strings are pairwise distinct.
\<close>

definition dto_fields :: "CoffeeInfoField list" where
  "dto_fields = [NAME_KR, NAME_EN, NOTE, REGION, FARM, VARIETY, PROCESS, SOURCE]"

definition form_fields :: "(CoffeeInfoField \<times> jstring) list" where
  "form_fields =
     [(NAME_KR, ascii ''name_kr''), (NAME_EN, ascii ''name_en''), (NOTE, ascii ''note''),
      (REGION, ascii ''region''), (FARM, ascii ''farm''), (VARIETY, ascii ''variety''),
      (PROCESS, ascii ''process''), (SOURCE, ascii ''source'')]"

definition coffee_info :: "(CoffeeInfoField \<Rightarrow> jstring) \<Rightarrow> jsval \<Rightarrow> (jstring \<times> jsval) list" where
  "coffee_info fld body = map (\<lambda>(f, name). (fld f, member body name)) form_fields"

text \<open>
  A choice of member strings, used to instantiate the theorems below at concrete
  requests: each member is its own name.
\<close>

fun member_name :: "CoffeeInfoField \<Rightarrow> jstring" where
  "member_name NAME_KR = ascii ''NAME_KR''"
| "member_name NAME_EN = ascii ''NAME_EN''"
| "member_name NOTE = ascii ''NOTE''"
| "member_name REGION = ascii ''REGION''"
| "member_name FARM = ascii ''FARM''"
| "member_name VARIETY = ascii ''VARIETY''"
| "member_name PROCESS = ascii ''PROCESS''"
| "member_name SOURCE = ascii ''SOURCE''"
| "member_name ID = ascii ''ID''"
| "member_name USER_SUBMITTED = ascii ''USER_SUBMITTED''"

section \<open>The content pipeline\<close>

text \<open>
  A node of the syntax tree that the transform passes visit: the root, an element with
  its tag name, properties, children, the \<open>data.meta\<close> string of a code element (if
  any) and the extra fields that the passes write on the node object
  (\<open>__rawString__\<close>, \<open>__event__\<close>, \<open>__src__\<close>, \<open>__style__\<close>), or a literal node (text,
  comment) with its value.
\<close>

datatype node =
    Root "node list"
  | Element jstring "(jstring \<times> jsval) list" "node list" "jstring option" "(jstring \<times> jsval) list"
  | Text jstring

definition dquote :: unit16 where
  "dquote = 0x22"

text \<open>
  The regular expression \<open>/event="([^"]*)"/\<close>: at the first position where the text
  reads \<open>event="\<close> and a closing quote follows, the match is the text up to that first
  closing quote. The result is the text before the match, the captured group and the
  text after the match; \<open>replace\<close> with the empty string keeps the first and the last.
\<close>

definition event_prefix :: jstring where
  "event_prefix = ascii ''event='' @ [dquote]"

definition match_here :: "jstring \<Rightarrow> (jstring \<times> jstring) option" where
  "match_here s =
     (if take (length event_prefix) s = event_prefix
      then (let rest = drop (length event_prefix) s;
                cap = takeWhile (\<lambda>c. c \<noteq> dquote) rest;
                aft = dropWhile (\<lambda>c. c \<noteq> dquote) rest
            in if aft = [] then None else Some (cap, tl aft))
      else None)"

fun event_match :: "jstring \<Rightarrow> (jstring \<times> jstring \<times> jstring) option" where
  "event_match [] = None"
| "event_match (c # cs) =
     (case match_here (c # cs) of
        Some (cap, aft) \<Rightarrow> Some ([], cap, aft)
      | None \<Rightarrow>
          (case event_match cs of
             None \<Rightarrow> None
           | Some (b, cap, aft) \<Rightarrow> Some (c # b, cap, aft)))"

fun node_value :: "node \<Rightarrow> jsval" where
  "node_value (Text v) = JStr v"
| "node_value n = JUndefined"

fun tag_of :: "node \<Rightarrow> jstring option" where
  "tag_of (Element tag props cs meta ann) = Some tag"
| "tag_of n = None"

text \<open>
  The visitor of the pass that runs before highlighting. On a \<open>pre\<close> element whose first
  child is a \<open>code\<close> element it moves \<open>event="..."\<close> from the code's meta string to the
  \<open>pre\<close> node, and records the value of the code's first child and the \<open>pre\<close>'s own
  \<open>__src__\<close> and \<open>__style__\<close> properties on the \<open>pre\<close> node. Reading a member of a
  missing first child throws.
\<close>

definition pre_visitor :: "node \<Rightarrow> thrown + node" where
  "pre_visitor node =
     (case node of
        Element tag props cs meta ann \<Rightarrow>
          if tag = ascii ''pre'' then
            (case cs of
               [] \<Rightarrow> Inl TypeError
             | codeEl # rest \<Rightarrow>
                 (case codeEl of
                    Element ctag cprops ccs cmeta cann \<Rightarrow>
                      if ctag \<noteq> ascii ''code'' then Inr node
                      else
                        (let m = (case cmeta of
                                    None \<Rightarrow> None
                                  | Some s \<Rightarrow> if s = [] then None else event_match s);
                             ann1 = (case m of
                                       None \<Rightarrow> ann
                                     | Some (b, cap, aft) \<Rightarrow>
                                         AList.update (ascii ''__event__'') (JStr cap) ann);
                             cmeta1 = (case m of
                                         None \<Rightarrow> cmeta
                                       | Some (b, cap, aft) \<Rightarrow> Some (b @ aft))
                         in case ccs of
                              [] \<Rightarrow> Inl TypeError
                            | first # others \<Rightarrow>
                                Inr (Element tag props
                                      (Element ctag cprops ccs cmeta1 cann # rest) meta
                                      (AList.update (ascii ''__style__'') (prop_of props (ascii ''__style__''))
                                        (AList.update (ascii ''__src__'') (prop_of props (ascii ''__src__''))
                                          (AList.update (ascii ''__rawString__'') (node_value first)
                                             ann1)))))
                  | _ \<Rightarrow> Inr node))
          else Inr node
      | _ \<Rightarrow> Inr node)"

text \<open>
  The visitor of the pass that runs after highlighting. On a \<open>div\<close> element that has the
  property \<open>data-rehype-pretty-code-fragment\<close> and whose last child is a \<open>pre\<close> element,
  it writes \<open>__withMeta__\<close> and \<open>__rawString__\<close> into the properties of that \<open>pre\<close>, and
  \<open>__src__\<close>, \<open>__event__\<close> and \<open>__style__\<close> when the \<open>div\<close> node carries a truthy value
  for them.
\<close>

definition copy_if_truthy ::
  "jstring \<Rightarrow> (jstring \<times> jsval) list \<Rightarrow> (jstring \<times> jsval) list \<Rightarrow> (jstring \<times> jsval) list" where
  "copy_if_truthy k ann props =
     (if truthy (prop_of ann k) then AList.update k (prop_of ann k) props else props)"

definition post_visitor :: "node \<Rightarrow> thrown + node" where
  "post_visitor node =
     (case node of
        Element tag props cs meta ann \<Rightarrow>
          if tag = ascii ''div'' then
            if ascii ''data-rehype-pretty-code-fragment'' \<notin> fst ` set props then Inr node
            else
              if cs = [] then Inl TypeError
              else
                (case last cs of
                   Element ptag pprops pcs pmeta pann \<Rightarrow>
                     if ptag \<noteq> ascii ''pre'' then Inr node
                     else
                       Inr (Element tag props
                              (butlast cs @
                               [Element ptag
                                  (copy_if_truthy (ascii ''__style__'') ann
                                    (copy_if_truthy (ascii ''__event__'') ann
                                      (copy_if_truthy (ascii ''__src__'') ann
                                        (AList.update (ascii ''__rawString__'')
                                           (prop_of ann (ascii ''__rawString__''))
                                          (AList.update (ascii ''__withMeta__'')
                                             (JBool (tag_of (hd cs) = Some (ascii ''div'')))
                                             pprops)))))
                                  pcs pmeta pann])
                              meta ann)
                 | _ \<Rightarrow> Inr node)
          else Inr node
      | _ \<Rightarrow> Inr node)"

text \<open>
  \<open>visit\<close> calls the visitor on a node and then walks the children the node has after the
  call, in order; an exception of the visitor ends the walk.
\<close>

fun kids :: "node \<Rightarrow> node list" where
  "kids (Root cs) = cs"
| "kids (Element tag props cs meta ann) = cs"
| "kids (Text v) = []"

fun with_kids :: "node \<Rightarrow> node list \<Rightarrow> node" where
  "with_kids (Root cs) cs' = Root cs'"
| "with_kids (Element tag props cs meta ann) cs' = Element tag props cs' meta ann"
| "with_kids (Text v) cs' = Text v"

lemma size_kids_pre_visitor:
  "pre_visitor n = Inr n' \<Longrightarrow> size_list size (kids n') \<le> size_list size (kids n)"
  by (auto simp: pre_visitor_def Let_def split: node.splits list.splits if_splits option.splits)

lemma size_list_butlast_last:
  "cs \<noteq> [] \<Longrightarrow> size_list size cs = size_list size (butlast cs) + size (last cs) + 1"
proof -
  assume "cs \<noteq> []"
  then have "size_list size cs = size_list size (butlast cs @ [last cs])" by simp
  then show ?thesis by (simp only: size_list_append) simp
qed

lemma size_kids_post_visitor:
  "post_visitor n = Inr n' \<Longrightarrow> size_list size (kids n') \<le> size_list size (kids n)"
  apply (auto simp: post_visitor_def split: node.splits if_splits)
  subgoal for props cs meta ann pprops pcs pmeta pann b
    using size_list_butlast_last [of cs] by simp
  done

lemma size_kids_le: "size_list size (kids n) \<le> size n"
  by (cases n) simp_all

function pre_pass :: "node \<Rightarrow> thrown + node" and pre_pass_list :: "node list \<Rightarrow> thrown + node list" where
  "pre_pass node =
     (case pre_visitor node of
        Inl e \<Rightarrow> Inl e
      | Inr node' \<Rightarrow>
          (case pre_pass_list (kids node') of
             Inl e \<Rightarrow> Inl e
           | Inr cs' \<Rightarrow> Inr (with_kids node' cs')))"
| "pre_pass_list [] = Inr []"
| "pre_pass_list (c # cs) =
     (case pre_pass c of
        Inl e \<Rightarrow> Inl e
      | Inr c' \<Rightarrow>
          (case pre_pass_list cs of
             Inl e \<Rightarrow> Inl e
           | Inr cs' \<Rightarrow> Inr (c' # cs')))"
  by pat_completeness auto
termination
proof (relation "measure (\<lambda>x. case x of Inl n \<Rightarrow> 2 * size n + 1 | Inr ns \<Rightarrow> 2 * size_list size ns)")
  show "wf (measure (\<lambda>x. case x of Inl n \<Rightarrow> 2 * size n + 1 | Inr ns \<Rightarrow> 2 * size_list size ns))"
    by simp
next
  fix node node'
  assume "pre_visitor node = Inr node'"
  then have "size_list size (kids node') \<le> size node"
    using size_kids_pre_visitor [of node node'] size_kids_le [of node] by simp
  then show "(Inr (kids node'), Inl node)
      \<in> measure (\<lambda>x. case x of Inl n \<Rightarrow> 2 * size n + 1 | Inr ns \<Rightarrow> 2 * size_list size ns)"
    by simp
qed simp_all

function post_pass :: "node \<Rightarrow> thrown + node" and post_pass_list :: "node list \<Rightarrow> thrown + node list" where
  "post_pass node =
     (case post_visitor node of
        Inl e \<Rightarrow> Inl e
      | Inr node' \<Rightarrow>
          (case post_pass_list (kids node') of
             Inl e \<Rightarrow> Inl e
           | Inr cs' \<Rightarrow> Inr (with_kids node' cs')))"
| "post_pass_list [] = Inr []"
| "post_pass_list (c # cs) =
     (case post_pass c of
        Inl e \<Rightarrow> Inl e
      | Inr c' \<Rightarrow>
          (case post_pass_list cs of
             Inl e \<Rightarrow> Inl e
           | Inr cs' \<Rightarrow> Inr (c' # cs')))"
  by pat_completeness auto
termination
proof (relation "measure (\<lambda>x. case x of Inl n \<Rightarrow> 2 * size n + 1 | Inr ns \<Rightarrow> 2 * size_list size ns)")
  show "wf (measure (\<lambda>x. case x of Inl n \<Rightarrow> 2 * size n + 1 | Inr ns \<Rightarrow> 2 * size_list size ns))"
    by simp
next
  fix node node'
  assume "post_visitor node = Inr node'"
  then have "size_list size (kids node') \<le> size node"
    using size_kids_post_visitor [of node node'] size_kids_le [of node] by simp
  then show "(Inr (kids node'), Inl node)
      \<in> measure (\<lambda>x. case x of Inl n \<Rightarrow> 2 * size n + 1 | Inr ns \<Rightarrow> 2 * size_list size ns)"
    by simp
qed simp_all

declare pre_pass.simps [simp del] post_pass.simps [simp del]

text \<open>
  The node at a position of a tree, a position being the list of child indices from the
  root.
\<close>

fun node_at :: "node \<Rightarrow> nat list \<Rightarrow> node option" where
  "node_at n [] = Some n"
| "node_at n (i # p) = (if i < length (kids n) then node_at (kids n ! i) p else None)"

text \<open>What the visitor of the first pass changes among the children of a node.\<close>

definition meta_changed :: "node \<Rightarrow> node \<Rightarrow> bool" where
  "meta_changed a b \<longleftrightarrow>
     b = a \<or> (\<exists>props cs m m' ann.
               a = Element (ascii ''code'') props cs m ann \<and>
               b = Element (ascii ''code'') props cs m' ann)"

text \<open>What the visitor of the second pass changes among the children of a node.\<close>

definition properties_changed :: "node \<Rightarrow> node \<Rightarrow> bool" where
  "properties_changed a b \<longleftrightarrow>
     b = a \<or> (\<exists>props props' cs m ann.
               a = Element (ascii ''pre'') props cs m ann \<and>
               b = Element (ascii ''pre'') props' cs m ann)"

section \<open>Content types\<close>

text \<open>
  The two document types of the content source and the glob pattern of each. A pattern
  is matched segment by segment against the path of a content file, relative to the
  content directory: \<open>**\<close> stands for any number of directories (none included), a
  \<open>*\<close> inside a segment for any run of characters of that segment.
\<close>

definition slash :: unit16 where
  "slash = code_unit CHR ''/''"

definition star :: unit16 where
  "star = code_unit CHR ''*''"

fun seg_match :: "jstring \<Rightarrow> jstring \<Rightarrow> bool" where
  "seg_match [] [] = True"
| "seg_match [] (c # cs) = False"
| "seg_match (p # ps) [] = (p = star \<and> seg_match ps [])"
| "seg_match (p # ps) (c # cs) =
     (if p = star then seg_match ps (c # cs) \<or> seg_match (p # ps) cs
      else c = p \<and> seg_match ps cs)"

fun glob_segs :: "jstring list \<Rightarrow> jstring list \<Rightarrow> bool" where
  "glob_segs [] [] = True"
| "glob_segs [] (s # ss) = False"
| "glob_segs (g # gs) [] = (g = [star, star] \<and> glob_segs gs [])"
| "glob_segs (g # gs) (s # ss) =
     (if g = [star, star] then glob_segs gs (s # ss) \<or> glob_segs (g # gs) ss
      else seg_match g s \<and> glob_segs gs ss)"

definition glob_match :: "jstring \<Rightarrow> jstring \<Rightarrow> bool" where
  "glob_match pattern path = glob_segs (js_split pattern slash) (js_split path slash)"

datatype document_type = DocumentType (type_name: jstring) (filePathPattern: jstring)

definition Doc :: document_type where
  "Doc = DocumentType (ascii ''Doc'') (ascii ''docs/components/**/*.mdx'')"

definition Project :: document_type where
  "Project = DocumentType (ascii ''Project'') (ascii ''docs/projects/**/*.mdx'')"

definition documentTypes :: "document_type list" where
  "documentTypes = [Doc, Project]"

definition types_of_path :: "jstring \<Rightarrow> document_type list" where
  "types_of_path path = filter (\<lambda>t. glob_match (filePathPattern t) path) documentTypes"

section \<open>Facts about strings\<close>

lemma of_char_less_256: "(of_char c :: nat) < 256"
  by (cases c) simp

lemma unat_code_unit: "unat (code_unit c) = of_char c"
proof -
  have "(256::nat) \<le> 2 ^ LENGTH(16)" by simp
  with of_char_less_256 [of c] have "(of_char c :: nat) < 2 ^ LENGTH(16)"
    by (rule less_le_trans)
  then show ?thesis
    unfolding code_unit_def by (simp only: unat_of_nat mod_less)
qed

lemma code_unit_eq_iff [simp]: "code_unit a = code_unit b \<longleftrightarrow> a = b"
proof
  assume "code_unit a = code_unit b"
  then have "unat (code_unit a) = unat (code_unit b)" by (rule arg_cong)
  then have "(of_char a :: nat) = of_char b" by (simp only: unat_code_unit)
  then show "a = b" by (rule of_char_eqI)
next
  assume "a = b"
  then show "code_unit a = code_unit b" by (rule arg_cong)
qed

lemma ascii_eq_iff [simp]: "ascii a = ascii b \<longleftrightarrow> a = b"
proof -
  have "inj code_unit" by (rule injI) (simp only: code_unit_eq_iff)
  then have "inj (map code_unit)" by (simp only: inj_map)
  then show ?thesis unfolding ascii_def by (simp only: inj_eq)
qed

lemma ascii_Nil: "ascii [] = []"
  by (simp add: ascii_def)

lemma ascii_Cons: "ascii (c # cs) = code_unit c # ascii cs"
  by (simp add: ascii_def)

lemma length_split_acc: "length (split_acc sep cur s) = Suc (count_list s sep)"
  by (induction s arbitrary: cur) simp_all

lemma length_js_split: "length (js_split s sep) = Suc (count_list s sep)"
  by (simp add: js_split_def length_split_acc)

lemma count_list_pos_iff: "0 < count_list s x \<longleftrightarrow> x \<in> set s"
  using count_list_0_iff [of s x] by (cases "count_list s x") simp_all

lemma note_refinement_iff: "note_refinement s \<longleftrightarrow> comma \<in> set s"
  by (simp add: note_refinement_def length_js_split count_list_pos_iff)

section \<open>Facts about the validator\<close>

lemma merge_status_Valid_iff: "merge_status ss = Valid \<longleftrightarrow> (\<forall>s \<in> set ss. s = Valid)"
  unfolding merge_status_def
  by (metis status.distinct(1,3) status.exhaust)

lemma z_object_status:
  "status (z_object shape (JObj kvs)) =
     merge_status (map (\<lambda>(k, sch). status (sch (prop_of kvs k))) shape)"
  by (simp add: z_object_def Let_def case_prod_unfold comp_def)

lemma z_object_status_Valid_iff:
  "status (z_object shape (JObj kvs)) = Valid \<longleftrightarrow>
     (\<forall>(k, sch) \<in> set shape. status (sch (prop_of kvs k)) = Valid)"
  by (simp add: z_object_status merge_status_Valid_iff case_prod_unfold)

lemma z_object_issues:
  "issues (z_object shape (JObj kvs)) =
     concat (map (\<lambda>(k, sch). map (at_key k) (issues (sch (prop_of kvs k)))) shape)"
  by (simp add: z_object_def Let_def case_prod_unfold comp_def)

lemma z_object_issue_member:
  assumes "(k, sch) \<in> set shape" and "i \<in> set (issues (sch (prop_of kvs k)))"
  shows "at_key k i \<in> set (issues (z_object shape (JObj kvs)))"
proof -
  have "at_key k i \<in> set (map (at_key k) (issues (sch (prop_of kvs k))))"
    using assms(2) by simp
  then have "\<exists>p \<in> set shape.
      at_key k i \<in> set (case p of (k, sch) \<Rightarrow> map (at_key k) (issues (sch (prop_of kvs k))))"
    using assms(1) by (intro bexI [of _ "(k, sch)"]) simp_all
  then show ?thesis
    unfolding z_object_issues by simp
qed

lemma z_string_Valid_iff: "status (z_string v) = Valid \<longleftrightarrow> (\<exists>s. v = JStr s)"
  by (cases v) (simp_all add: z_string_def)

lemma z_min_string_Valid_iff:
  "status (z_min n msg z_string v) = Valid \<longleftrightarrow> (\<exists>s. v = JStr s \<and> n \<le> length s)"
  by (cases v) (auto simp: z_min_def z_string_def Let_def)

lemma note_field_Valid_iff:
  "status (note_field v) = Valid \<longleftrightarrow> (\<exists>s. v = JStr s \<and> comma \<in> set s)"
  by (cases v)
     (auto simp: note_field_def z_refine_def z_min_def z_string_def note_refinement_iff Let_def)

lemma optional_string_Valid_iff:
  "status (z_optional z_string v) = Valid \<longleftrightarrow> (v = JUndefined \<or> (\<exists>s. v = JStr s))"
  by (cases v) (auto simp: z_optional_def z_string_def)

lemma formSchema_Valid_iff:
  "status (formSchema (JObj kvs)) = Valid \<longleftrightarrow>
     (\<exists>s. prop_of kvs (ascii ''name_kr'') = JStr s \<and> s \<noteq> []) \<and>
     (\<exists>s. prop_of kvs (ascii ''name_en'') = JStr s) \<and>
     (\<exists>s. prop_of kvs (ascii ''note'') = JStr s \<and> comma \<in> set s) \<and>
     (\<forall>k \<in> set [ascii ''region'', ascii ''farm'', ascii ''variety'', ascii ''process'',
                  ascii ''source''].
        prop_of kvs k = JUndefined \<or> (\<exists>s. prop_of kvs k = JStr s))"
  unfolding formSchema_def z_object_status_Valid_iff
  by (simp add: z_min_string_Valid_iff z_string_Valid_iff note_field_Valid_iff
        optional_string_Valid_iff Suc_le_eq)

lemma safeParse_Inl_iff: "safeParse sch v = Inl errs \<longleftrightarrow> status (sch v) \<noteq> Valid \<and> errs = issues (sch v)"
  by (auto simp: safeParse_def Let_def)

lemma safeParse_Inr_iff: "safeParse sch v = Inr d \<longleftrightarrow> status (sch v) = Valid \<and> d = parsed (sch v)"
  by (auto simp: safeParse_def Let_def)

lemma comma_ascii: "[comma] = ascii '',''"
  by (simp add: comma_def ascii_Cons ascii_Nil)

section \<open>Facts about the record handed to the database client\<close>

lemma update_fresh: "k \<notin> fst ` set acc \<Longrightarrow> AList.update k v acc = acc @ [(k, v)]"
  by (induction acc) auto

lemma foldl_update_distinct:
  "distinct (map fst (acc @ kvs)) \<Longrightarrow>
     foldl (\<lambda>acc (k, v). AList.update k v acc) acc kvs = acc @ kvs"
proof (induction kvs arbitrary: acc)
  case Nil
  then show ?case by simp
next
  case (Cons p kvs)
  obtain k v where p: "p = (k, v)" by (cases p)
  from Cons.prems have fresh: "k \<notin> fst ` set acc" by (auto simp: p)
  from Cons.prems have "distinct (map fst ((acc @ [(k, v)]) @ kvs))" by (simp add: p)
  then have "foldl (\<lambda>acc (k, v). AList.update k v acc) (acc @ [(k, v)]) kvs = (acc @ [(k, v)]) @ kvs"
    by (rule Cons.IH)
  then show ?case by (simp add: p update_fresh [OF fresh])
qed

lemma object_literal_distinct: "distinct (map fst kvs) \<Longrightarrow> object_literal kvs = kvs"
  using foldl_update_distinct [of "[]" kvs] by (simp add: object_literal_def)

lemma CoffeeInfoDTO_distinct:
  assumes "distinct (map fld dto_fields)"
  shows "CoffeeInfoDTO fld = z_object (map (\<lambda>f. (fld f, z_string)) dto_fields)"
proof -
  have "distinct (map fst (map (\<lambda>f. (fld f, z_string)) dto_fields))"
    using assms by (simp add: comp_def)
  then have "object_literal (map (\<lambda>f. (fld f, z_string)) dto_fields) = map (\<lambda>f. (fld f, z_string)) dto_fields"
    by (rule object_literal_distinct)
  then show ?thesis
    by (simp add: CoffeeInfoDTO_def dto_fields_def)
qed

lemma dto_input_distinct:
  assumes "distinct (map fld dto_fields)" and "\<not> nullish body"
  shows "dto_input fld body = Inr (JObj (coffee_info fld body))"
proof -
  have "distinct (map fst (coffee_info fld body))"
    using assms(1) by (simp add: coffee_info_def form_fields_def dto_fields_def)
  then have "object_literal (coffee_info fld body) = coffee_info fld body"
    by (rule object_literal_distinct)
  then show ?thesis
    using assms(2) by (simp add: dto_input_def coffee_info_def form_fields_def)
qed

lemma prop_of_coffee_info:
  assumes "distinct (map fld dto_fields)" and "(f, name) \<in> set form_fields"
  shows "prop_of (coffee_info fld body) (fld f) = member body name"
proof -
  have "distinct (map fst (coffee_info fld body))"
    using assms(1) by (simp add: coffee_info_def form_fields_def dto_fields_def)
  moreover have "(fld f, member body name) \<in> set (coffee_info fld body)"
    using assms(2) by (force simp: coffee_info_def)
  ultimately have "map_of (coffee_info fld body) (fld f) = Some (member body name)"
    by (rule map_of_is_SomeI)
  then show ?thesis by (simp add: prop_of_def)
qed

lemma CoffeeInfoDTO_Valid_iff:
  assumes "distinct (map fld dto_fields)"
  shows "status (CoffeeInfoDTO fld (JObj (coffee_info fld body))) = Valid \<longleftrightarrow>
           (\<forall>(f, name) \<in> set form_fields. \<exists>s. member body name = JStr s)"
proof -
  have "status (CoffeeInfoDTO fld (JObj (coffee_info fld body))) = Valid \<longleftrightarrow>
          (\<forall>(f, name) \<in> set form_fields.
              status (z_string (prop_of (coffee_info fld body) (fld f))) = Valid)"
    unfolding CoffeeInfoDTO_distinct [OF assms] z_object_status_Valid_iff
    by (simp add: dto_fields_def form_fields_def)
  also have "\<dots> \<longleftrightarrow> (\<forall>(f, name) \<in> set form_fields. \<exists>s. member body name = JStr s)"
    using prop_of_coffee_info [OF assms, of _ _ body]
    by (auto simp: z_string_Valid_iff)
  finally show ?thesis .
qed

lemma merge_status_Aborted_iff: "merge_status ss = Aborted \<longleftrightarrow> Aborted \<in> set ss"
  by (simp add: merge_status_def)

lemma z_object_parsed:
  assumes "\<forall>(k, sch) \<in> set shape.
             status (sch (prop_of kvs k)) \<noteq> Aborted \<and>
             parsed (sch (prop_of kvs k)) = prop_of kvs k \<and> prop_of kvs k \<noteq> JUndefined"
  shows "parsed (z_object shape (JObj kvs)) = JObj (map (\<lambda>(k, sch). (k, prop_of kvs k)) shape)"
proof -
  let ?rs = "map (\<lambda>(k, sch). (k, sch (prop_of kvs k))) shape"
  have st: "merge_status (map (\<lambda>(k, r). status r) ?rs) \<noteq> Aborted"
    using assms by (auto simp: merge_status_Aborted_iff)
  have keep: "filter (\<lambda>(k, r). parsed r \<noteq> JUndefined \<or> k \<in> fst ` set kvs) ?rs = ?rs"
    using assms by (auto simp: filter_id_conv)
  have "map (\<lambda>(k, r). (k, parsed r)) ?rs = map (\<lambda>(k, sch). (k, prop_of kvs k)) shape"
    using assms by auto
  with st keep show ?thesis
    by (simp add: z_object_def Let_def)
qed

lemma CoffeeInfoDTO_parsed:
  assumes "distinct (map fld dto_fields)"
    and "\<forall>(f, name) \<in> set form_fields. \<exists>s. member body name = JStr s"
  shows "parsed (CoffeeInfoDTO fld (JObj (coffee_info fld body))) = JObj (coffee_info fld body)"
proof -
  have str: "\<exists>s. prop_of (coffee_info fld body) (fld f) = JStr s"
    if "(f, name) \<in> set form_fields" for f name
    using prop_of_coffee_info [OF assms(1) that, of body] assms(2) that by auto
  have "\<forall>(k, sch) \<in> set (map (\<lambda>f. (fld f, z_string)) dto_fields).
          status (sch (prop_of (coffee_info fld body) k)) \<noteq> Aborted \<and>
          parsed (sch (prop_of (coffee_info fld body) k)) = prop_of (coffee_info fld body) k \<and>
          prop_of (coffee_info fld body) k \<noteq> JUndefined"
  proof (clarsimp, intro conjI)
    fix f assume "f \<in> set dto_fields"
    then obtain name where "(f, name) \<in> set form_fields"
      by (auto simp: dto_fields_def form_fields_def)
    from str [OF this] obtain s where s: "prop_of (coffee_info fld body) (fld f) = JStr s" ..
    show "status (z_string (prop_of (coffee_info fld body) (fld f))) \<noteq> Aborted"
      by (simp add: s z_string_def)
    show "parsed (z_string (prop_of (coffee_info fld body) (fld f))) = prop_of (coffee_info fld body) (fld f)"
      by (simp add: s z_string_def)
    show "prop_of (coffee_info fld body) (fld f) \<noteq> JUndefined"
      by (simp add: s)
  qed
  then have "parsed (CoffeeInfoDTO fld (JObj (coffee_info fld body))) =
      JObj (map (\<lambda>(k, sch). (k, prop_of (coffee_info fld body) k)) (map (\<lambda>f. (fld f, z_string)) dto_fields))"
    unfolding CoffeeInfoDTO_distinct [OF assms(1)] by (rule z_object_parsed)
  also have "map (\<lambda>(k, sch). (k, prop_of (coffee_info fld body) k)) (map (\<lambda>f. (fld f, z_string)) dto_fields)
      = map (\<lambda>(f, name). (fld f, prop_of (coffee_info fld body) (fld f))) form_fields"
    by (simp add: dto_fields_def form_fields_def)
  also have "\<dots> = coffee_info fld body"
    unfolding coffee_info_def [of fld body, symmetric]
    using prop_of_coffee_info [OF assms(1), of _ _ body]
    by (auto simp: coffee_info_def)
  finally show ?thesis .
qed

lemma parse_CoffeeInfoDTO_valid:
  assumes "distinct (map fld dto_fields)"
    and "\<forall>(f, name) \<in> set form_fields. \<exists>s. member body name = JStr s"
  shows "parse (CoffeeInfoDTO fld) (JObj (coffee_info fld body)) = Inr (JObj (coffee_info fld body))"
  using CoffeeInfoDTO_Valid_iff [OF assms(1), of body] CoffeeInfoDTO_parsed [OF assms] assms(2)
  by (simp add: parse_def safeParse_def Let_def)

lemma distinct_member_name: "distinct (map member_name dto_fields)"
  by (simp add: dto_fields_def)

lemma number_to_string_safe: "\<bar>n\<bar> < 2 ^ 53 \<Longrightarrow> number_to_string other n = decimal_of_int n"
  by (simp add: number_to_string_def)

lemma decimal_of_int_0: "decimal_of_int 0 = ascii ''0''"
  by (simp add: decimal_of_int_def decimal.simps [of 0] digit_char_def)

lemma decimal_of_int_42: "decimal_of_int 42 = ascii ''42''"
  by (simp add: decimal_of_int_def decimal.simps [of 42] decimal.simps [of 4] digit_char_def)

lemma number_to_string_0: "number_to_string other 0 = ascii ''0''"
  by (simp add: number_to_string_safe decimal_of_int_0)

lemma parse_Inl_iff:
  "parse sch v = Inl e \<longleftrightarrow> status (sch v) \<noteq> Valid \<and> e = ZodError (issues (sch v))"
  by (auto simp: parse_def safeParse_def Let_def)

section \<open>Client-side validation\<close>

text \<open>
  C1. A form input whose \<open>name_kr\<close> is the empty string does not pass the form schema:
  the resolver returns errors, among them the "too small" issue of \<open>name_kr\<close> with the
  message of the source.
\<close>

theorem empty_name_kr_rejected:
  assumes "prop_of kvs (ascii ''name_kr'') = JStr []"
  shows "\<exists>errs. safeParse formSchema (JObj kvs) = Inl errs \<and>
           Issue [ascii ''name_kr''] too_small Name_kr_required \<in> set errs"
proof -
  have "status (formSchema (JObj kvs)) \<noteq> Valid"
    using assms by (simp add: formSchema_Valid_iff)
  moreover have "Issue [ascii ''name_kr''] too_small Name_kr_required
      \<in> set (issues (formSchema (JObj kvs)))"
    using assms
    by (simp add: formSchema_def z_object_issues z_min_def z_string_def at_key_def)
  ultimately show ?thesis
    by (simp add: safeParse_Inl_iff)
qed

theorem empty_name_kr_rejected_witness:
  "safeParse formSchema
     (JObj [(ascii ''name_kr'', JStr []), (ascii ''name_en'', JStr (ascii ''Kochere'')),
            (ascii ''note'', JStr (ascii ''Bright, Floral''))])
   = Inl [Issue [ascii ''name_kr''] too_small Name_kr_required]"
proof -
  let ?kvs = "[(ascii ''name_kr'', JStr []), (ascii ''name_en'', JStr (ascii ''Kochere'')),
            (ascii ''note'', JStr (ascii ''Bright, Floral''))]"
  have h: "prop_of ?kvs (ascii ''name_kr'') = JStr []"
    by (simp add: prop_of_def)
  from empty_name_kr_rejected [OF h] obtain errs where
    "safeParse formSchema (JObj ?kvs) = Inl errs" by blast
  moreover have "issues (formSchema (JObj ?kvs)) = [Issue [ascii ''name_kr''] too_small Name_kr_required]"
    by (simp add: formSchema_def z_object_issues z_min_def z_string_def at_key_def prop_of_def
          note_field_def z_refine_def z_optional_def note_refinement_iff comma_def ascii_Cons ascii_Nil)
  ultimately show ?thesis
    by (simp add: safeParse_Inl_iff)
qed

text \<open>
  C2. A form input whose \<open>note\<close> is a string without a comma does not pass the form
  schema: the resolver returns errors, among them the refinement's issue of \<open>note\<close>.
\<close>

theorem note_without_comma_rejected:
  assumes "prop_of kvs (ascii ''note'') = JStr t" and "comma \<notin> set t"
  shows "\<exists>errs. safeParse formSchema (JObj kvs) = Inl errs \<and>
           Issue [ascii ''note''] custom Note_comma_separated \<in> set errs"
proof -
  have "status (formSchema (JObj kvs)) \<noteq> Valid"
    using assms by (simp add: formSchema_Valid_iff)
  moreover have "Issue [] custom Note_comma_separated
      \<in> set (issues (note_field (prop_of kvs (ascii ''note''))))"
    using assms
    by (simp add: note_field_def z_refine_def z_min_def z_string_def note_refinement_iff Let_def)
  then have "at_key (ascii ''note'') (Issue [] custom Note_comma_separated)
      \<in> set (issues (formSchema (JObj kvs)))"
    unfolding formSchema_def by (rule z_object_issue_member [rotated]) simp
  then have "Issue [ascii ''note''] custom Note_comma_separated
      \<in> set (issues (formSchema (JObj kvs)))"
    by (simp add: at_key_def)
  ultimately show ?thesis
    by (simp add: safeParse_Inl_iff)
qed

theorem note_without_comma_rejected_witness:
  "prop_of [(ascii ''name_kr'', JStr (ascii ''Yirgacheffe'')), (ascii ''name_en'', JStr []),
            (ascii ''note'', JStr (ascii ''Floral''))] (ascii ''note'') = JStr (ascii ''Floral'') \<and>
   comma \<notin> set (ascii ''Floral'') \<and>
   safeParse formSchema
     (JObj [(ascii ''name_kr'', JStr (ascii ''Yirgacheffe'')), (ascii ''name_en'', JStr []),
            (ascii ''note'', JStr (ascii ''Floral''))])
   = Inl [Issue [ascii ''note''] custom Note_comma_separated]"
proof -
  let ?kvs = "[(ascii ''name_kr'', JStr (ascii ''Yirgacheffe'')), (ascii ''name_en'', JStr []),
            (ascii ''note'', JStr (ascii ''Floral''))]"
  have h1: "prop_of ?kvs (ascii ''note'') = JStr (ascii ''Floral'')"
    by (simp add: prop_of_def)
  have h2: "comma \<notin> set (ascii ''Floral'')"
    by (simp add: comma_def ascii_Cons ascii_Nil)
  from note_without_comma_rejected [OF h1 h2] obtain errs where
    "safeParse formSchema (JObj ?kvs) = Inl errs" by blast
  moreover have "issues (formSchema (JObj ?kvs)) = [Issue [ascii ''note''] custom Note_comma_separated]"
    using h2
    by (simp add: formSchema_def z_object_issues z_min_def z_string_def at_key_def prop_of_def
          note_field_def z_refine_def z_optional_def note_refinement_iff ascii_Cons ascii_Nil)
  ultimately show ?thesis
    using h1 h2 by (simp add: safeParse_Inl_iff)
qed

text \<open>
  C10. The note field accepts every string that contains a comma, whatever stands between
  the commas. The string \<open>","\<close> splits into two empty tokens and is accepted.
\<close>

theorem note_with_comma_accepted:
  "(comma \<in> set t \<longrightarrow> note_field (JStr t) = ParseResult Valid (JStr t) []) \<and>
   js_split (ascii '','') comma = [[], []] \<and>
   note_field (JStr (ascii '','')) = ParseResult Valid (JStr (ascii '','')) []"
proof -
  have a: "note_field (JStr u) = ParseResult Valid (JStr u) []" if "comma \<in> set u" for u
  proof -
    from that have "u \<noteq> []" by auto
    then have "\<not> length u < Suc 0" by (cases u) simp_all
    with that show ?thesis
      by (simp add: note_field_def z_refine_def z_min_def z_string_def note_refinement_iff Let_def)
  qed
  have b: "js_split (ascii '','') comma = [[], []]"
    by (simp add: js_split_def comma_def ascii_Cons ascii_Nil)
  have "comma \<in> set (ascii '','')"
    by (simp add: comma_def ascii_Cons ascii_Nil)
  then have "note_field (JStr (ascii '','')) = ParseResult Valid (JStr (ascii '','')) []"
    by (rule a)
  with a b show ?thesis by blast
qed

theorem note_with_comma_accepted_witness:
  "comma \<in> set (ascii ''Bright, Floral, Sweet'') \<and>
   note_field (JStr (ascii ''Bright, Floral, Sweet''))
     = ParseResult Valid (JStr (ascii ''Bright, Floral, Sweet'')) []"
proof -
  have h: "comma \<in> set (ascii ''Bright, Floral, Sweet'')"
    by (simp add: comma_def ascii_Cons ascii_Nil)
  with note_with_comma_accepted [of "ascii ''Bright, Floral, Sweet''"] show ?thesis
    by blast
qed

text \<open>
  An input with a non-empty \<open>name_kr\<close> and a note of two tokens, but without
  \<open>name_en\<close>, is rejected: \<open>name_en\<close> is a required string.
\<close>

theorem absent_name_en_rejected:
  "prop_of [(ascii ''name_kr'', JStr (ascii ''a'')), (ascii ''note'', JStr (ascii ''a,b''))]
     (ascii ''name_kr'') = JStr (ascii ''a'') \<and>
   ascii ''a'' \<noteq> [] \<and>
   js_split (ascii ''a,b'') comma = [ascii ''a'', ascii ''b''] \<and>
   safeParse formSchema
     (JObj [(ascii ''name_kr'', JStr (ascii ''a'')), (ascii ''note'', JStr (ascii ''a,b''))])
   = Inl [Issue [ascii ''name_en''] invalid_type Default_message]"
proof -
  let ?kvs = "[(ascii ''name_kr'', JStr (ascii ''a'')), (ascii ''note'', JStr (ascii ''a,b''))]"
  have a: "prop_of ?kvs (ascii ''name_kr'') = JStr (ascii ''a'')"
    by (simp add: prop_of_def)
  have b: "ascii ''a'' \<noteq> []"
    by (simp add: ascii_Cons)
  have c: "js_split (ascii ''a,b'') comma = [ascii ''a'', ascii ''b'']"
    by (simp add: js_split_def comma_def ascii_Cons ascii_Nil)
  have d: "status (formSchema (JObj ?kvs)) \<noteq> Valid"
    by (simp add: formSchema_Valid_iff prop_of_def)
  have e: "issues (formSchema (JObj ?kvs)) = [Issue [ascii ''name_en''] invalid_type Default_message]"
    by (simp add: formSchema_def z_object_issues z_min_def z_string_def at_key_def prop_of_def
          note_field_def z_refine_def z_optional_def note_refinement_iff comma_def ascii_Cons ascii_Nil)
  have f: "safeParse formSchema (JObj ?kvs) = Inl [Issue [ascii ''name_en''] invalid_type Default_message]"
    unfolding safeParse_Inl_iff by (intro conjI) (rule d, rule sym, rule e)
  from a b c f show ?thesis by (intro conjI)
qed

text \<open>
  C4, amended. A form input passes the form schema exactly when \<open>name_kr\<close> is a
  non-empty string, \<open>name_en\<close> is a string (possibly empty), \<open>note\<close> is a string that
  splits on commas into more than one token, and each of \<open>region\<close>, \<open>farm\<close>,
  \<open>variety\<close>, \<open>process\<close>, \<open>source\<close> is a string (possibly empty) or absent.
\<close>

theorem formSchema_accepts_iff:
  "(\<exists>d. safeParse formSchema (JObj kvs) = Inr d) \<longleftrightarrow>
     (\<exists>s. prop_of kvs (ascii ''name_kr'') = JStr s \<and> s \<noteq> []) \<and>
     (\<exists>s. prop_of kvs (ascii ''name_en'') = JStr s) \<and>
     (\<exists>s. prop_of kvs (ascii ''note'') = JStr s \<and> length (js_split s comma) > 1) \<and>
     (\<forall>k \<in> set [ascii ''region'', ascii ''farm'', ascii ''variety'', ascii ''process'',
                  ascii ''source''].
        prop_of kvs k = JUndefined \<or> (\<exists>s. prop_of kvs k = JStr s))"
proof -
  have "(\<exists>d. safeParse formSchema (JObj kvs) = Inr d) \<longleftrightarrow> status (formSchema (JObj kvs)) = Valid"
    by (simp add: safeParse_Inr_iff)
  moreover have "length (js_split s comma) > 1 \<longleftrightarrow> comma \<in> set s" for s
    by (simp add: length_js_split count_list_pos_iff)
  ultimately show ?thesis
    by (simp only: formSchema_Valid_iff)
qed

theorem formSchema_accepts_iff_witness:
  "(\<exists>d. safeParse formSchema
      (JObj [(ascii ''name_kr'', JStr (ascii ''Yirgacheffe'')), (ascii ''name_en'', JStr []),
             (ascii ''note'', JStr (ascii ''Bright, Floral'')), (ascii ''farm'', JStr [])]) = Inr d) \<and>
   \<not> (\<exists>d. safeParse formSchema
      (JObj [(ascii ''name_kr'', JStr (ascii ''Yirgacheffe'')), (ascii ''name_en'', JStr []),
             (ascii ''note'', JStr (ascii ''Bright, Floral'')), (ascii ''farm'', JNum 3)]) = Inr d)"
proof -
  have c: "length (js_split (ascii ''Bright, Floral'') comma) > 1"
    by (simp add: js_split_def comma_def ascii_Cons ascii_Nil)
  have n: "ascii ''Yirgacheffe'' \<noteq> []"
    by (simp add: ascii_Cons)
  show ?thesis
    unfolding formSchema_accepts_iff using c n by (simp add: prop_of_def)
qed

section \<open>The server action: failures\<close>

text \<open>
  C5. When the body of the request fails \<open>CoffeeInfoDTO.parse\<close>, the action throws the
  validator's error as it is, returns no redirect, and has not called
  \<open>createCoffeeInfo\<close>, whatever \<open>createCoffeeInfo\<close> would do.
\<close>

theorem invalid_body_throws_before_create:
  assumes "json request = Inr body"
    and "dto_input fld body = Inr input"
    and "parse (CoffeeInfoDTO fld) input = Inl e"
  shows "action fld other createCoffeeInfo request = (Inl e, []) \<and> (\<exists>errs. e = ZodError errs)"
proof -
  have "action fld other createCoffeeInfo request = (Inl e, [])"
    using assms by (simp add: action_def)
  moreover have "\<exists>errs. e = ZodError errs"
    using assms(3) by (auto simp: parse_def split: sum.splits)
  ultimately show ?thesis ..
qed

theorem invalid_body_throws_before_create_witness:
  "action member_name (\<lambda>n. ascii ''1e+21'') (\<lambda>info. Inr JNull)
     (Request (Inr (JObj [(ascii ''name_kr'', JStr (ascii ''a'')), (ascii ''name_en'', JNum 7),
                          (ascii ''note'', JStr (ascii ''a,b'')), (ascii ''region'', JStr []),
                          (ascii ''farm'', JStr []), (ascii ''variety'', JStr []),
                          (ascii ''process'', JStr []), (ascii ''source'', JStr [])])))
   = (Inl (ZodError [Issue [ascii ''NAME_EN''] invalid_type Default_message]), [])"
proof -
  let ?body = "JObj [(ascii ''name_kr'', JStr (ascii ''a'')), (ascii ''name_en'', JNum 7),
                     (ascii ''note'', JStr (ascii ''a,b'')), (ascii ''region'', JStr []),
                     (ascii ''farm'', JStr []), (ascii ''variety'', JStr []),
                     (ascii ''process'', JStr []), (ascii ''source'', JStr [])]"
  have a: "json (Request (Inr ?body)) = Inr ?body" by simp
  have b: "dto_input member_name ?body = Inr (JObj (coffee_info member_name ?body))"
    by (rule dto_input_distinct [OF distinct_member_name]) (simp add: nullish_def)
  have "status (CoffeeInfoDTO member_name (JObj (coffee_info member_name ?body))) \<noteq> Valid"
    unfolding CoffeeInfoDTO_Valid_iff [OF distinct_member_name]
    by (simp add: form_fields_def prop_of_def)
  moreover have "issues (CoffeeInfoDTO member_name (JObj (coffee_info member_name ?body)))
      = [Issue [ascii ''NAME_EN''] invalid_type Default_message]"
    unfolding CoffeeInfoDTO_distinct [OF distinct_member_name] z_object_issues
    by (simp add: dto_fields_def coffee_info_def form_fields_def prop_of_def z_string_def at_key_def)
  ultimately have c: "parse (CoffeeInfoDTO member_name) (JObj (coffee_info member_name ?body))
      = Inl (ZodError [Issue [ascii ''NAME_EN''] invalid_type Default_message])"
    by (simp add: parse_Inl_iff)
  from invalid_body_throws_before_create [OF a b c] show ?thesis by blast
qed

text \<open>
  C6. When \<open>createCoffeeInfo\<close> rejects, the action throws the same reason, after that
  one call and without a redirect.
\<close>

theorem create_failure_propagates:
  assumes "json request = Inr body"
    and "dto_input fld body = Inr input"
    and "parse (CoffeeInfoDTO fld) input = Inr info"
    and "createCoffeeInfo info = Inl e"
  shows "action fld other createCoffeeInfo request = (Inl e, [info])"
  using assms by (simp add: action_def)

theorem create_failure_propagates_witness:
  "action member_name (\<lambda>n. ascii ''1e+21'') (\<lambda>info. Inl (Rejected (JStr (ascii ''timeout''))))
     (Request (Inr (JObj [(ascii ''name_kr'', JStr (ascii ''a'')), (ascii ''name_en'', JStr []),
                          (ascii ''note'', JStr (ascii ''a,b'')), (ascii ''region'', JStr []),
                          (ascii ''farm'', JStr []), (ascii ''variety'', JStr []),
                          (ascii ''process'', JStr []), (ascii ''source'', JStr [])])))
   = (Inl (Rejected (JStr (ascii ''timeout''))),
      [JObj [(ascii ''NAME_KR'', JStr (ascii ''a'')), (ascii ''NAME_EN'', JStr []),
             (ascii ''NOTE'', JStr (ascii ''a,b'')), (ascii ''REGION'', JStr []),
             (ascii ''FARM'', JStr []), (ascii ''VARIETY'', JStr []),
             (ascii ''PROCESS'', JStr []), (ascii ''SOURCE'', JStr [])]])"
proof -
  let ?body = "JObj [(ascii ''name_kr'', JStr (ascii ''a'')), (ascii ''name_en'', JStr []),
                     (ascii ''note'', JStr (ascii ''a,b'')), (ascii ''region'', JStr []),
                     (ascii ''farm'', JStr []), (ascii ''variety'', JStr []),
                     (ascii ''process'', JStr []), (ascii ''source'', JStr [])]"
  let ?info = "JObj (coffee_info member_name ?body)"
  let ?create = "\<lambda>info :: jsval. (Inl (Rejected (JStr (ascii ''timeout''))) :: thrown + jsval)"
  have a: "json (Request (Inr ?body)) = Inr ?body" by simp
  have b: "dto_input member_name ?body = Inr ?info"
    by (rule dto_input_distinct [OF distinct_member_name]) (simp add: nullish_def)
  have c: "parse (CoffeeInfoDTO member_name) ?info = Inr ?info"
    by (rule parse_CoffeeInfoDTO_valid [OF distinct_member_name])
       (simp add: form_fields_def prop_of_def)
  have d: "?create ?info = Inl (Rejected (JStr (ascii ''timeout'')))" by simp
  have "action member_name (\<lambda>n. ascii ''1e+21'') ?create (Request (Inr ?body))
          = (Inl (Rejected (JStr (ascii ''timeout''))), [?info])"
    using a b c d by (rule create_failure_propagates)
  then show ?thesis
    by (simp add: coffee_info_def form_fields_def prop_of_def)
qed

section \<open>The server action: the server-side schema and the redirect\<close>

lemma CoffeeInfoDTO_issue_member:
  assumes "distinct (map fld dto_fields)" and "(f, name) \<in> set form_fields"
    and "\<forall>s. member body name \<noteq> JStr s"
  shows "Issue [fld f] invalid_type Default_message
           \<in> set (issues (CoffeeInfoDTO fld (JObj (coffee_info fld body))))"
proof -
  have "f \<in> set dto_fields"
    using assms(2) by (auto simp: form_fields_def dto_fields_def)
  then have "(fld f, z_string) \<in> set (map (\<lambda>f. (fld f, z_string)) dto_fields)"
    by simp
  moreover have "Issue [] invalid_type Default_message
      \<in> set (issues (z_string (prop_of (coffee_info fld body) (fld f))))"
    using assms(3) unfolding prop_of_coffee_info [OF assms(1,2)]
    by (cases "member body name") (simp_all add: z_string_def)
  ultimately have "at_key (fld f) (Issue [] invalid_type Default_message)
      \<in> set (issues (z_object (map (\<lambda>f. (fld f, z_string)) dto_fields) (JObj (coffee_info fld body))))"
    by (rule z_object_issue_member)
  then show ?thesis
    by (simp add: CoffeeInfoDTO_distinct [OF assms(1)] at_key_def)
qed

text \<open>
  C9. With pairwise distinct member strings, \<open>CoffeeInfoDTO.parse\<close> accepts the record
  built from a body exactly when all eight fields of the body are strings. So for a body
  in which one of \<open>region\<close>, \<open>farm\<close>, \<open>variety\<close>, \<open>process\<close>, \<open>source\<close> is absent,
  which the form schema allows, the action throws the validator's error, with an
  "invalid type" issue for that field, and \<open>createCoffeeInfo\<close> is not called.
\<close>

theorem absent_optional_field_throws:
  assumes "distinct (map fld dto_fields)"
    and "json request = Inr body"
    and "\<not> nullish body"
  shows "((\<exists>info. parse (CoffeeInfoDTO fld) (JObj (coffee_info fld body)) = Inr info) \<longleftrightarrow>
            (\<forall>(f, name) \<in> set form_fields. \<exists>s. member body name = JStr s)) \<and>
         (\<forall>(f, name) \<in> set [(REGION, ascii ''region''), (FARM, ascii ''farm''),
                               (VARIETY, ascii ''variety''), (PROCESS, ascii ''process''),
                               (SOURCE, ascii ''source'')].
            member body name = JUndefined \<longrightarrow>
              (\<exists>errs. action fld other createCoffeeInfo request = (Inl (ZodError errs), []) \<and>
                      Issue [fld f] invalid_type Default_message \<in> set errs))"
proof (intro conjI)
  show "(\<exists>info. parse (CoffeeInfoDTO fld) (JObj (coffee_info fld body)) = Inr info) \<longleftrightarrow>
          (\<forall>(f, name) \<in> set form_fields. \<exists>s. member body name = JStr s)"
    using CoffeeInfoDTO_Valid_iff [OF assms(1), of body]
    by (auto simp: parse_def safeParse_def Let_def)
next
  have input: "dto_input fld body = Inr (JObj (coffee_info fld body))"
    using assms(1,3) by (rule dto_input_distinct)
  have "\<exists>errs. action fld other createCoffeeInfo request = (Inl (ZodError errs), []) \<and>
                 Issue [fld f] invalid_type Default_message \<in> set errs"
    if mem: "(f, name) \<in> set form_fields" and absent: "member body name = JUndefined"
    for f name
  proof -
    have no_string: "\<forall>s. member body name \<noteq> JStr s"
      using absent by simp
    then have "\<not> (\<forall>(f, name) \<in> set form_fields. \<exists>s. member body name = JStr s)"
      using mem by auto
    then have "status (CoffeeInfoDTO fld (JObj (coffee_info fld body))) \<noteq> Valid"
      by (simp only: CoffeeInfoDTO_Valid_iff [OF assms(1)] not_False_eq_True)
    then have "parse (CoffeeInfoDTO fld) (JObj (coffee_info fld body))
        = Inl (ZodError (issues (CoffeeInfoDTO fld (JObj (coffee_info fld body)))))"
      by (simp add: parse_Inl_iff)
    with assms(2) input have "action fld other createCoffeeInfo request
        = (Inl (ZodError (issues (CoffeeInfoDTO fld (JObj (coffee_info fld body))))), [])"
      by (simp add: action_def)
    moreover note CoffeeInfoDTO_issue_member [OF assms(1) mem no_string]
    ultimately show ?thesis by blast
  qed
  then show "\<forall>(f, name) \<in> set [(REGION, ascii ''region''), (FARM, ascii ''farm''),
                               (VARIETY, ascii ''variety''), (PROCESS, ascii ''process''),
                               (SOURCE, ascii ''source'')].
            member body name = JUndefined \<longrightarrow>
              (\<exists>errs. action fld other createCoffeeInfo request = (Inl (ZodError errs), []) \<and>
                      Issue [fld f] invalid_type Default_message \<in> set errs)"
    by (simp add: form_fields_def)
qed

theorem absent_optional_field_throws_witness:
  "(\<exists>d. safeParse formSchema
      (JObj [(ascii ''name_kr'', JStr (ascii ''a'')), (ascii ''name_en'', JStr []),
             (ascii ''note'', JStr (ascii ''a,b''))]) = Inr d) \<and>
   (\<exists>errs. action member_name (\<lambda>n. ascii ''1e+21'') (\<lambda>info. Inr JNull)
      (Request (Inr (JObj [(ascii ''name_kr'', JStr (ascii ''a'')), (ascii ''name_en'', JStr []),
                           (ascii ''note'', JStr (ascii ''a,b''))])))
        = (Inl (ZodError errs), []) \<and>
      Issue [ascii ''REGION''] invalid_type Default_message \<in> set errs)"
proof -
  let ?body = "JObj [(ascii ''name_kr'', JStr (ascii ''a'')), (ascii ''name_en'', JStr []),
                     (ascii ''note'', JStr (ascii ''a,b''))]"
  have "status (formSchema ?body) = Valid"
    unfolding formSchema_Valid_iff
    by (simp add: prop_of_def comma_def ascii_Cons ascii_Nil)
  then have client: "\<exists>d. safeParse formSchema ?body = Inr d"
    by (simp add: safeParse_Inr_iff)
  have a: "json (Request (Inr ?body)) = Inr ?body" by simp
  have b: "\<not> nullish ?body" by (simp add: nullish_def)
  have c: "member ?body (ascii ''region'') = JUndefined" by (simp add: prop_of_def)
  from absent_optional_field_throws [OF distinct_member_name a b,
      where createCoffeeInfo = "\<lambda>info. Inr JNull" and other = "\<lambda>n. ascii ''1e+21''"] c
  have "\<exists>errs. action member_name (\<lambda>n. ascii ''1e+21'') (\<lambda>info. Inr JNull) (Request (Inr ?body))
          = (Inl (ZodError errs), []) \<and>
        Issue [member_name REGION] invalid_type Default_message \<in> set errs"
    by simp
  with client show ?thesis by simp
qed

lemma prop_of_has_key: "prop_of r k = v \<Longrightarrow> v \<noteq> JUndefined \<Longrightarrow> k \<in> fst ` set r"
  by (cases "map_of r k") (auto simp: prop_of_def dest: map_of_SomeD intro: rev_image_eqI)

lemma extract_number_present:
  assumes "prop_of r (ascii ''properties'') = JObj ps"
    and "prop_of ps (fld ID) = JObj idp"
    and "prop_of idp (ascii ''unique_id'') = JObj u"
  shows "extract_number fld (JObj r) = Inr (prop_of u (ascii ''number''))"
proof -
  have "ascii ''properties'' \<in> fst ` set r"
    using assms(1) by (rule prop_of_has_key) simp
  then show ?thesis
    using assms by (simp add: extract_number_def get_prop_def nullish_def)
qed

lemma extract_number_no_properties:
  assumes "\<not> truthy response \<or> (\<exists>r. response = JObj r \<and> ascii ''properties'' \<notin> fst ` set r)"
  shows "extract_number fld response = Inr (JNum 0)"
  using assms by (auto simp: extract_number_def)

lemma extract_number_no_id:
  assumes "prop_of r (ascii ''properties'') = JObj ps"
    and "nullish (prop_of ps (fld ID))"
  shows "extract_number fld (JObj r) = Inr JUndefined"
proof -
  have "ascii ''properties'' \<in> fst ` set r"
    using assms(1) by (rule prop_of_has_key) simp
  then show ?thesis
    using assms by (simp add: extract_number_def get_prop_def nullish_def)
qed

lemma coffee_path_0: "ascii ''/coffee/'' @ number_to_string other 0 = ascii ''/coffee/0''"
  by (simp add: number_to_string_0 ascii_def)

lemma coffee_path_42: "ascii ''/coffee/'' @ decimal_of_int 42 = ascii ''/coffee/42''"
  by (simp add: decimal_of_int_42 ascii_def)

lemma action_after_create:
  assumes "json request = Inr body"
    and "dto_input fld body = Inr input"
    and "parse (CoffeeInfoDTO fld) input = Inr info"
    and "createCoffeeInfo info = Inr response"
  shows "action fld other createCoffeeInfo request =
           (case extract_number fld response of
              Inl e \<Rightarrow> (Inl e, [info])
            | Inr number \<Rightarrow>
                (Inr (redirect (ascii ''/coffee/'' @ to_string other (js_or number (JNum 0)))), [info]))"
  using assms by (simp add: action_def)

lemma valid_body_facts:
  fixes body defines "body \<equiv> JObj [(ascii ''name_kr'', JStr (ascii ''a'')), (ascii ''name_en'', JStr []),
                     (ascii ''note'', JStr (ascii ''a,b'')), (ascii ''region'', JStr []),
                     (ascii ''farm'', JStr []), (ascii ''variety'', JStr []),
                     (ascii ''process'', JStr []), (ascii ''source'', JStr [])]"
  shows "dto_input member_name body = Inr (JObj (coffee_info member_name body))"
    and "parse (CoffeeInfoDTO member_name) (JObj (coffee_info member_name body))
           = Inr (JObj (coffee_info member_name body))"
    and "coffee_info member_name body =
           [(ascii ''NAME_KR'', JStr (ascii ''a'')), (ascii ''NAME_EN'', JStr []),
            (ascii ''NOTE'', JStr (ascii ''a,b'')), (ascii ''REGION'', JStr []),
            (ascii ''FARM'', JStr []), (ascii ''VARIETY'', JStr []),
            (ascii ''PROCESS'', JStr []), (ascii ''SOURCE'', JStr [])]"
proof -
  show "dto_input member_name body = Inr (JObj (coffee_info member_name body))"
    by (rule dto_input_distinct [OF distinct_member_name]) (simp add: nullish_def body_def)
  show "parse (CoffeeInfoDTO member_name) (JObj (coffee_info member_name body))
           = Inr (JObj (coffee_info member_name body))"
    by (rule parse_CoffeeInfoDTO_valid [OF distinct_member_name])
       (simp add: form_fields_def prop_of_def body_def)
  show "coffee_info member_name body =
           [(ascii ''NAME_KR'', JStr (ascii ''a'')), (ascii ''NAME_EN'', JStr []),
            (ascii ''NOTE'', JStr (ascii ''a,b'')), (ascii ''REGION'', JStr []),
            (ascii ''FARM'', JStr []), (ascii ''VARIETY'', JStr []),
            (ascii ''PROCESS'', JStr []), (ascii ''SOURCE'', JStr [])]"
    by (simp add: coffee_info_def form_fields_def prop_of_def body_def)
qed

text \<open>
  A response whose \<open>ID\<close> property is not a unique-id property holds no identifier, and
  the action does not redirect to \<open>/coffee/0\<close>: reading \<open>number\<close> of the missing
  \<open>unique_id\<close> throws.
\<close>

theorem malformed_identifier_throws:
  "action member_name (\<lambda>n. ascii ''1e+21'')
     (\<lambda>info. Inr (JObj [(ascii ''object'', JStr (ascii ''page'')),
        (ascii ''properties'', JObj [(ascii ''ID'',
           JObj [(ascii ''type'', JStr (ascii ''rich_text'')), (ascii ''rich_text'', JArr [])])])]))
     (Request (Inr (JObj [(ascii ''name_kr'', JStr (ascii ''a'')), (ascii ''name_en'', JStr []),
                     (ascii ''note'', JStr (ascii ''a,b'')), (ascii ''region'', JStr []),
                     (ascii ''farm'', JStr []), (ascii ''variety'', JStr []),
                     (ascii ''process'', JStr []), (ascii ''source'', JStr [])])))
   = (Inl TypeError,
      [JObj [(ascii ''NAME_KR'', JStr (ascii ''a'')), (ascii ''NAME_EN'', JStr []),
             (ascii ''NOTE'', JStr (ascii ''a,b'')), (ascii ''REGION'', JStr []),
             (ascii ''FARM'', JStr []), (ascii ''VARIETY'', JStr []),
             (ascii ''PROCESS'', JStr []), (ascii ''SOURCE'', JStr [])]])"
proof -
  let ?body = "JObj [(ascii ''name_kr'', JStr (ascii ''a'')), (ascii ''name_en'', JStr []),
                     (ascii ''note'', JStr (ascii ''a,b'')), (ascii ''region'', JStr []),
                     (ascii ''farm'', JStr []), (ascii ''variety'', JStr []),
                     (ascii ''process'', JStr []), (ascii ''source'', JStr [])]"
  let ?info = "JObj (coffee_info member_name ?body)"
  let ?resp = "JObj [(ascii ''object'', JStr (ascii ''page'')),
        (ascii ''properties'', JObj [(ascii ''ID'',
           JObj [(ascii ''type'', JStr (ascii ''rich_text'')), (ascii ''rich_text'', JArr [])])])]"
  have a: "json (Request (Inr ?body)) = Inr ?body" by simp
  note b = valid_body_facts(1) and c = valid_body_facts(2)
  have d: "(\<lambda>info :: jsval. (Inr ?resp :: thrown + jsval)) ?info = Inr ?resp" by simp
  have e: "extract_number member_name ?resp = Inl TypeError"
    by (simp add: extract_number_def get_prop_def nullish_def prop_of_def)
  show ?thesis
    unfolding action_after_create [OF a b c d] e valid_body_facts(3) by simp
qed

text \<open>
  C3, amended. For a body that passes \<open>CoffeeInfoDTO.parse\<close> and a call of
  \<open>createCoffeeInfo\<close> that resolves, the action calls \<open>createCoffeeInfo\<close> once and
  returns a redirect: to \<open>/coffee/n\<close>, with \<open>n\<close> in plain decimal notation, when the
  response holds the safe integer \<open>n\<close> (of magnitude below \<open>2^53\<close>) at
  \<open>properties[ID].unique_id.number\<close>, and to \<open>/coffee/0\<close> when the response is falsy,
  has no \<open>properties\<close>, has no \<open>ID\<close> among its properties, or has a \<open>unique_id\<close>
  without a number.
\<close>

theorem valid_submission_redirects:
  assumes "json request = Inr body"
    and "dto_input fld body = Inr input"
    and "parse (CoffeeInfoDTO fld) input = Inr info"
    and "createCoffeeInfo info = Inr response"
  shows "(\<forall>r ps idp u n.
            response = JObj r \<and> prop_of r (ascii ''properties'') = JObj ps \<and>
            prop_of ps (fld ID) = JObj idp \<and> prop_of idp (ascii ''unique_id'') = JObj u \<and>
            prop_of u (ascii ''number'') = JNum n \<and> \<bar>n\<bar> < 2 ^ 53 \<longrightarrow>
              action fld other createCoffeeInfo request
                = (Inr (redirect (ascii ''/coffee/'' @ decimal_of_int n)), [info])) \<and>
         ((\<not> truthy response \<or>
           (\<exists>r. response = JObj r \<and> ascii ''properties'' \<notin> fst ` set r) \<or>
           (\<exists>r ps. response = JObj r \<and> prop_of r (ascii ''properties'') = JObj ps \<and>
              nullish (prop_of ps (fld ID))) \<or>
           (\<exists>r ps idp u. response = JObj r \<and> prop_of r (ascii ''properties'') = JObj ps \<and>
              prop_of ps (fld ID) = JObj idp \<and> prop_of idp (ascii ''unique_id'') = JObj u \<and>
              nullish (prop_of u (ascii ''number'')))) \<longrightarrow>
            action fld other createCoffeeInfo request
              = (Inr (redirect (ascii ''/coffee/0'')), [info]))"
proof -
  have act: "action fld other createCoffeeInfo request
      = (Inr (redirect (ascii ''/coffee/'' @ to_string other (js_or number (JNum 0)))), [info])"
    if "extract_number fld response = Inr number" for number
    using assms that by (simp add: action_def)
  have present: "action fld other createCoffeeInfo request
      = (Inr (redirect (ascii ''/coffee/'' @ decimal_of_int n)), [info])"
    if "response = JObj r" "prop_of r (ascii ''properties'') = JObj ps"
      "prop_of ps (fld ID) = JObj idp" "prop_of idp (ascii ''unique_id'') = JObj u"
      "prop_of u (ascii ''number'') = JNum n" "\<bar>n\<bar> < 2 ^ 53" for r ps idp u n
  proof -
    have "extract_number fld response = Inr (JNum n)"
      using extract_number_present [of r ps fld idp u] that by simp
    from act [OF this] that(6) show ?thesis
      by (cases "n = 0") (simp_all add: js_or_def number_to_string_safe)
  qed
  have zero: "action fld other createCoffeeInfo request = (Inr (redirect (ascii ''/coffee/0'')), [info])"
    if "extract_number fld response = Inr number" "\<not> truthy number \<or> number = JNum 0" for number
  proof -
    from that(2) have "js_or number (JNum 0) = JNum 0"
      by (auto simp: js_or_def)
    with act [OF that(1)] show ?thesis
      by (simp add: coffee_path_0)
  qed
  have absent: "action fld other createCoffeeInfo request = (Inr (redirect (ascii ''/coffee/0'')), [info])"
    if h: "\<not> truthy response \<or>
        (\<exists>r. response = JObj r \<and> ascii ''properties'' \<notin> fst ` set r) \<or>
        (\<exists>r ps. response = JObj r \<and> prop_of r (ascii ''properties'') = JObj ps \<and>
           nullish (prop_of ps (fld ID))) \<or>
        (\<exists>r ps idp u. response = JObj r \<and> prop_of r (ascii ''properties'') = JObj ps \<and>
           prop_of ps (fld ID) = JObj idp \<and> prop_of idp (ascii ''unique_id'') = JObj u \<and>
           nullish (prop_of u (ascii ''number'')))"
  proof -
    consider
      (none) "\<not> truthy response \<or> (\<exists>r. response = JObj r \<and> ascii ''properties'' \<notin> fst ` set r)"
      | (no_id) r ps where "response = JObj r" "prop_of r (ascii ''properties'') = JObj ps"
          "nullish (prop_of ps (fld ID))"
      | (no_number) r ps idp u where "response = JObj r" "prop_of r (ascii ''properties'') = JObj ps"
          "prop_of ps (fld ID) = JObj idp" "prop_of idp (ascii ''unique_id'') = JObj u"
          "nullish (prop_of u (ascii ''number''))"
      using h by blast
    then show ?thesis
    proof cases
      case none
      then have "extract_number fld response = Inr (JNum 0)"
        by (rule extract_number_no_properties)
      then show ?thesis by (rule zero) simp
    next
      case no_id
      then have "extract_number fld response = Inr JUndefined"
        using extract_number_no_id [of r ps fld] by simp
      then show ?thesis by (rule zero) simp
    next
      case no_number
      then have e: "extract_number fld response = Inr (prop_of u (ascii ''number''))"
        using extract_number_present [of r ps fld idp u] by simp
      have "\<not> truthy (prop_of u (ascii ''number''))"
        using no_number(5) by (auto simp: nullish_def)
      then have "\<not> truthy (prop_of u (ascii ''number'')) \<or> prop_of u (ascii ''number'') = JNum 0"
        by (rule disjI1)
      with e show ?thesis by (rule zero)
    qed
  qed
  show ?thesis
  proof (intro conjI allI impI)
    fix r ps idp u n
    assume "response = JObj r \<and> prop_of r (ascii ''properties'') = JObj ps \<and>
            prop_of ps (fld ID) = JObj idp \<and> prop_of idp (ascii ''unique_id'') = JObj u \<and>
            prop_of u (ascii ''number'') = JNum n \<and> \<bar>n\<bar> < 2 ^ 53"
    then show "action fld other createCoffeeInfo request
                = (Inr (redirect (ascii ''/coffee/'' @ decimal_of_int n)), [info])"
      by (elim conjE) (rule present)
  qed (rule absent)
qed

theorem valid_submission_redirects_witness:
  "action member_name (\<lambda>n. ascii ''1e+21'')
     (\<lambda>info. Inr (JObj [(ascii ''object'', JStr (ascii ''page'')),
        (ascii ''properties'', JObj [(ascii ''ID'',
           JObj [(ascii ''type'', JStr (ascii ''unique_id'')),
                 (ascii ''unique_id'', JObj [(ascii ''prefix'', JNull), (ascii ''number'', JNum 42)])])])]))
     (Request (Inr (JObj [(ascii ''name_kr'', JStr (ascii ''a'')), (ascii ''name_en'', JStr []),
                     (ascii ''note'', JStr (ascii ''a,b'')), (ascii ''region'', JStr []),
                     (ascii ''farm'', JStr []), (ascii ''variety'', JStr []),
                     (ascii ''process'', JStr []), (ascii ''source'', JStr [])])))
   = (Inr (Response 302 (ascii ''/coffee/42'')),
      [JObj [(ascii ''NAME_KR'', JStr (ascii ''a'')), (ascii ''NAME_EN'', JStr []),
             (ascii ''NOTE'', JStr (ascii ''a,b'')), (ascii ''REGION'', JStr []),
             (ascii ''FARM'', JStr []), (ascii ''VARIETY'', JStr []),
             (ascii ''PROCESS'', JStr []), (ascii ''SOURCE'', JStr [])]]) \<and>
   action member_name (\<lambda>n. ascii ''1e+21'')
     (\<lambda>info. Inr (JObj [(ascii ''object'', JStr (ascii ''page'')), (ascii ''id'', JStr (ascii ''abc''))]))
     (Request (Inr (JObj [(ascii ''name_kr'', JStr (ascii ''a'')), (ascii ''name_en'', JStr []),
                     (ascii ''note'', JStr (ascii ''a,b'')), (ascii ''region'', JStr []),
                     (ascii ''farm'', JStr []), (ascii ''variety'', JStr []),
                     (ascii ''process'', JStr []), (ascii ''source'', JStr [])])))
   = (Inr (Response 302 (ascii ''/coffee/0'')),
      [JObj [(ascii ''NAME_KR'', JStr (ascii ''a'')), (ascii ''NAME_EN'', JStr []),
             (ascii ''NOTE'', JStr (ascii ''a,b'')), (ascii ''REGION'', JStr []),
             (ascii ''FARM'', JStr []), (ascii ''VARIETY'', JStr []),
             (ascii ''PROCESS'', JStr []), (ascii ''SOURCE'', JStr [])]])"
proof -
  let ?body = "JObj [(ascii ''name_kr'', JStr (ascii ''a'')), (ascii ''name_en'', JStr []),
                     (ascii ''note'', JStr (ascii ''a,b'')), (ascii ''region'', JStr []),
                     (ascii ''farm'', JStr []), (ascii ''variety'', JStr []),
                     (ascii ''process'', JStr []), (ascii ''source'', JStr [])]"
  let ?info = "JObj (coffee_info member_name ?body)"
  let ?u = "[(ascii ''prefix'', JNull), (ascii ''number'', JNum 42)]"
  let ?idp = "[(ascii ''type'', JStr (ascii ''unique_id'')), (ascii ''unique_id'', JObj ?u)]"
  let ?ps = "[(ascii ''ID'', JObj ?idp)]"
  let ?full = "[(ascii ''object'', JStr (ascii ''page'')), (ascii ''properties'', JObj ?ps)]"
  let ?partial = "[(ascii ''object'', JStr (ascii ''page'')), (ascii ''id'', JStr (ascii ''abc''))]"
  have a: "json (Request (Inr ?body)) = Inr ?body" by simp
  note b = valid_body_facts(1) and c = valid_body_facts(2)
  have d: "(\<lambda>info :: jsval. (Inr (JObj ?full) :: thrown + jsval)) ?info = Inr (JObj ?full)" by simp
  have dp: "(\<lambda>info :: jsval. (Inr (JObj ?partial) :: thrown + jsval)) ?info = Inr (JObj ?partial)" by simp
  have shape: "JObj ?full = JObj ?full \<and> prop_of ?full (ascii ''properties'') = JObj ?ps \<and>
      prop_of ?ps (member_name ID) = JObj ?idp \<and> prop_of ?idp (ascii ''unique_id'') = JObj ?u \<and>
      prop_of ?u (ascii ''number'') = JNum 42 \<and> \<bar>42 :: int\<bar> < 2 ^ 53"
    by (simp add: prop_of_def)
  have "ascii ''properties'' \<notin> fst ` set ?partial" by simp
  then have "\<exists>r. JObj ?partial = JObj r \<and> ascii ''properties'' \<notin> fst ` set r" by simp
  then have none: "\<not> truthy (JObj ?partial) \<or>
      (\<exists>r. JObj ?partial = JObj r \<and> ascii ''properties'' \<notin> fst ` set r) \<or>
      (\<exists>r ps. JObj ?partial = JObj r \<and> prop_of r (ascii ''properties'') = JObj ps \<and>
         nullish (prop_of ps (member_name ID))) \<or>
      (\<exists>r ps idp u. JObj ?partial = JObj r \<and> prop_of r (ascii ''properties'') = JObj ps \<and>
         prop_of ps (member_name ID) = JObj idp \<and> prop_of idp (ascii ''unique_id'') = JObj u \<and>
         nullish (prop_of u (ascii ''number'')))"
    by (intro disjI2 [of _ "\<not> truthy (JObj ?partial)"] disjI1)
  have p1: "action member_name (\<lambda>n. ascii ''1e+21'') (\<lambda>info. Inr (JObj ?full)) (Request (Inr ?body))
      = (Inr (redirect (ascii ''/coffee/'' @ decimal_of_int 42)), [?info])"
    using valid_submission_redirects [OF a b c d, THEN conjunct1, rule_format, OF shape] .
  have p2: "action member_name (\<lambda>n. ascii ''1e+21'') (\<lambda>info. Inr (JObj ?partial)) (Request (Inr ?body))
      = (Inr (redirect (ascii ''/coffee/0'')), [?info])"
    using valid_submission_redirects [OF a b c dp, THEN conjunct2, THEN mp, OF none] .
  show ?thesis
    unfolding p1 p2 valid_body_facts(3) coffee_path_42 redirect_def by (intro conjI refl)
qed

section \<open>Content types of paths\<close>

lemma seg_match_literal: "star \<notin> set p \<Longrightarrow> seg_match p s \<longleftrightarrow> s = p"
proof (induction p arbitrary: s)
  case Nil
  then show ?case by (cases s) simp_all
next
  case (Cons c p)
  then show ?case by (cases s) auto
qed

lemma glob_segs_literal:
  assumes "star \<notin> set g"
  shows "glob_segs (g # gs) ss \<longleftrightarrow> (\<exists>ss'. ss = g # ss' \<and> glob_segs gs ss')"
proof -
  have "g \<noteq> [star, star]" using assms by auto
  then show ?thesis
    using seg_match_literal [OF assms] by (cases ss) auto
qed

lemma split_Doc_pattern:
  "js_split (filePathPattern Doc) slash = [ascii ''docs'', ascii ''components'', [star, star], ascii ''*.mdx'']"
  by (simp add: Doc_def js_split_def slash_def star_def ascii_Cons ascii_Nil)

lemma split_Project_pattern:
  "js_split (filePathPattern Project) slash = [ascii ''docs'', ascii ''projects'', [star, star], ascii ''*.mdx'']"
  by (simp add: Project_def js_split_def slash_def star_def ascii_Cons ascii_Nil)

lemma no_star_docs: "star \<notin> set (ascii ''docs'')"
  by (simp add: star_def ascii_Cons ascii_Nil)

lemma no_star_components: "star \<notin> set (ascii ''components'')"
  by (simp add: star_def ascii_Cons ascii_Nil)

lemma no_star_projects: "star \<notin> set (ascii ''projects'')"
  by (simp add: star_def ascii_Cons ascii_Nil)

lemma match_Doc_iff:
  "glob_match (filePathPattern Doc) path \<longleftrightarrow>
     (\<exists>rest. js_split path slash = ascii ''docs'' # ascii ''components'' # rest \<and>
             glob_segs [[star, star], ascii ''*.mdx''] rest)"
  by (auto simp: glob_match_def split_Doc_pattern glob_segs_literal no_star_docs no_star_components)

lemma match_Project_iff:
  "glob_match (filePathPattern Project) path \<longleftrightarrow>
     (\<exists>rest. js_split path slash = ascii ''docs'' # ascii ''projects'' # rest \<and>
             glob_segs [[star, star], ascii ''*.mdx''] rest)"
  by (auto simp: glob_match_def split_Project_pattern glob_segs_literal no_star_docs no_star_projects)

lemma patterns_disjoint:
  "\<not> (glob_match (filePathPattern Doc) path \<and> glob_match (filePathPattern Project) path)"
  by (auto simp: match_Doc_iff match_Project_iff)

lemma Doc_neq_Project: "Doc \<noteq> Project"
  by (simp add: Doc_def Project_def)

text \<open>
  C8. The content source has exactly the two document types \<open>Doc\<close> and \<open>Project\<close>. A
  path that matches \<open>docs/components/**/*.mdx\<close> has the type \<open>Doc\<close> and no other, a
  path that matches \<open>docs/projects/**/*.mdx\<close> has the type \<open>Project\<close> and no other,
  and no path matches both patterns: every path has at most one type.
\<close>

theorem content_type_of_path_unique:
  "set (types_of_path path) \<subseteq> {Doc, Project} \<and>
   length (types_of_path path) \<le> 1 \<and>
   filePathPattern Doc = ascii ''docs/components/**/*.mdx'' \<and>
   filePathPattern Project = ascii ''docs/projects/**/*.mdx'' \<and>
   (glob_match (ascii ''docs/components/**/*.mdx'') path \<longleftrightarrow> types_of_path path = [Doc]) \<and>
   (glob_match (ascii ''docs/projects/**/*.mdx'') path \<longleftrightarrow> types_of_path path = [Project]) \<and>
   \<not> (glob_match (ascii ''docs/components/**/*.mdx'') path \<and>
      glob_match (ascii ''docs/projects/**/*.mdx'') path)"
proof -
  have d: "filePathPattern Doc = ascii ''docs/components/**/*.mdx''" by (simp add: Doc_def)
  have p: "filePathPattern Project = ascii ''docs/projects/**/*.mdx''" by (simp add: Project_def)
  note dis = patterns_disjoint [of path]
  have t: "types_of_path path =
      (if glob_match (filePathPattern Doc) path then [Doc]
       else if glob_match (filePathPattern Project) path then [Project] else [])"
    using dis by (auto simp: types_of_path_def documentTypes_def)
  show ?thesis
    unfolding d [symmetric] p [symmetric]
    using dis Doc_neq_Project by (auto simp: t d p)
qed

theorem content_type_of_path_unique_witness:
  "types_of_path (ascii ''docs/components/ui/button.mdx'') = [Doc] \<and>
   types_of_path (ascii ''docs/projects/raon.mdx'') = [Project] \<and>
   types_of_path (ascii ''docs/readme.mdx'') = []"
proof -
  have a: "glob_match (ascii ''docs/components/**/*.mdx'') (ascii ''docs/components/ui/button.mdx'')"
    by (simp add: glob_match_def js_split_def slash_def star_def ascii_Cons ascii_Nil)
  have b: "glob_match (ascii ''docs/projects/**/*.mdx'') (ascii ''docs/projects/raon.mdx'')"
    by (simp add: glob_match_def js_split_def slash_def star_def ascii_Cons ascii_Nil)
  have c: "\<not> glob_match (ascii ''docs/components/**/*.mdx'') (ascii ''docs/readme.mdx'')"
    by (simp add: glob_match_def js_split_def slash_def star_def ascii_Cons ascii_Nil)
  have d: "\<not> glob_match (ascii ''docs/projects/**/*.mdx'') (ascii ''docs/readme.mdx'')"
    by (simp add: glob_match_def js_split_def slash_def star_def ascii_Cons ascii_Nil)
  have "types_of_path (ascii ''docs/components/ui/button.mdx'') = [Doc]"
    using content_type_of_path_unique [of "ascii ''docs/components/ui/button.mdx''"] a by simp
  moreover have "types_of_path (ascii ''docs/projects/raon.mdx'') = [Project]"
    using content_type_of_path_unique [of "ascii ''docs/projects/raon.mdx''"] b by simp
  moreover have "types_of_path (ascii ''docs/readme.mdx'') = []"
    using c d by (simp add: types_of_path_def documentTypes_def Doc_def Project_def)
  ultimately show ?thesis by simp
qed

section \<open>Facts about the tree walks\<close>

lemma pre_pass_list_nth:
  "pre_pass_list cs = Inr cs' \<Longrightarrow>
     length cs' = length cs \<and> (\<forall>i < length cs. pre_pass (cs ! i) = Inr (cs' ! i))"
proof (induction cs arbitrary: cs')
  case Nil
  then show ?case by simp
next
  case (Cons c cs)
  from Cons.prems obtain c' cs'' where c: "pre_pass c = Inr c'" and cs: "pre_pass_list cs = Inr cs''"
    and eq: "cs' = c' # cs''"
    by (auto split: sum.splits)
  from Cons.IH [OF cs] c eq show ?case
    by (auto simp: nth_Cons split: nat.splits)
qed

lemma kids_with_kids: "(\<forall>v. n \<noteq> Text v) \<Longrightarrow> kids (with_kids n cs) = cs"
  by (cases n) simp_all

lemma pre_pass_unfold:
  "pre_pass t = Inr t' \<Longrightarrow>
     \<exists>t1 cs'. pre_visitor t = Inr t1 \<and> pre_pass_list (kids t1) = Inr cs' \<and> t' = with_kids t1 cs'"
  by (subst (asm) pre_pass.simps) (auto split: sum.splits)

lemma pre_visitor_kids:
  assumes "pre_visitor n = Inr n1"
  shows "length (kids n1) = length (kids n) \<and>
         (\<forall>i < length (kids n). meta_changed (kids n ! i) (kids n1 ! i))"
  using assms
  by (auto simp: pre_visitor_def meta_changed_def Let_def nth_Cons
           split: node.splits list.splits if_splits option.splits nat.splits)

lemma pre_visitor_Text: "pre_visitor n = Inr (Text v) \<Longrightarrow> n = Text v"
  by (auto simp: pre_visitor_def Let_def split: node.splits list.splits if_splits option.splits)

lemma node_at_meta_changed:
  assumes "meta_changed a b" and "node_at a p = Some n" and "tag_of n \<noteq> Some (ascii ''code'')"
  shows "node_at b p = Some n"
proof (cases p)
  case Nil
  with assms show ?thesis by (auto simp: meta_changed_def)
next
  case (Cons i q)
  from assms(1) have "kids b = kids a" by (auto simp: meta_changed_def)
  with assms(2) Cons show ?thesis by (auto split: if_splits)
qed

lemma pre_pass_at:
  assumes "pre_pass t = Inr t'" and "node_at t p = Some n"
    and "tag_of n \<noteq> Some (ascii ''code'')"
  shows "\<exists>n1 cs'. pre_visitor n = Inr n1 \<and> pre_pass_list (kids n1) = Inr cs' \<and>
                  node_at t' p = Some (with_kids n1 cs')"
  using assms
proof (induction p arbitrary: t t')
  case Nil
  then show ?case using pre_pass_unfold [of t t'] by auto
next
  case (Cons i q)
  from pre_pass_unfold [OF Cons.prems(1)] obtain t1 cs' where
    v: "pre_visitor t = Inr t1" and l: "pre_pass_list (kids t1) = Inr cs'"
    and t': "t' = with_kids t1 cs'" by blast
  from Cons.prems(2) have i: "i < length (kids t)" and at: "node_at (kids t ! i) q = Some n"
    by (auto split: if_splits)
  from pre_visitor_kids [OF v] i have len: "length (kids t1) = length (kids t)"
    and ch: "meta_changed (kids t ! i) (kids t1 ! i)" by auto
  from node_at_meta_changed [OF ch at Cons.prems(3)]
  have at1: "node_at (kids t1 ! i) q = Some n" .
  from pre_pass_list_nth [OF l] i len have len': "length cs' = length (kids t)"
    and pi: "pre_pass (kids t1 ! i) = Inr (cs' ! i)" by auto
  from Cons.IH [OF pi at1 Cons.prems(3)] obtain n1 cs'' where
    r: "pre_visitor n = Inr n1" "pre_pass_list (kids n1) = Inr cs''"
       "node_at (cs' ! i) q = Some (with_kids n1 cs'')" by blast
  have "\<forall>v. t1 \<noteq> Text v"
  proof
    fix v show "t1 \<noteq> Text v"
    proof
      assume "t1 = Text v"
      with v have "t = Text v" by (simp add: pre_visitor_Text)
      with i show False by simp
    qed
  qed
  then have "kids t' = cs'" by (simp add: t' kids_with_kids)
  with i len' r show ?case by auto
qed

lemma post_pass_list_nth:
  "post_pass_list cs = Inr cs' \<Longrightarrow>
     length cs' = length cs \<and> (\<forall>i < length cs. post_pass (cs ! i) = Inr (cs' ! i))"
proof (induction cs arbitrary: cs')
  case Nil
  then show ?case by simp
next
  case (Cons c cs)
  from Cons.prems obtain c' cs'' where c: "post_pass c = Inr c'" and cs: "post_pass_list cs = Inr cs''"
    and eq: "cs' = c' # cs''"
    by (auto split: sum.splits)
  from Cons.IH [OF cs] c eq show ?case
    by (auto simp: nth_Cons split: nat.splits)
qed

lemma post_pass_unfold:
  "post_pass t = Inr t' \<Longrightarrow>
     \<exists>t1 cs'. post_visitor t = Inr t1 \<and> post_pass_list (kids t1) = Inr cs' \<and> t' = with_kids t1 cs'"
  by (subst (asm) post_pass.simps) (auto split: sum.splits)

lemma nth_replace_last:
  assumes "cs \<noteq> []" and "i < length cs"
  shows "(butlast cs @ [x]) ! i = (if i = length cs - 1 then x else cs ! i)"
  using assms by (auto simp: nth_append nth_butlast)

lemma post_visitor_kids:
  assumes "post_visitor n = Inr n1"
  shows "length (kids n1) = length (kids n) \<and>
         (\<forall>i < length (kids n). properties_changed (kids n ! i) (kids n1 ! i))"
proof (cases "kids n1 = kids n")
  case True
  then show ?thesis by (simp add: properties_changed_def)
next
  case False
  with assms obtain tag props cs meta ann pprops pprops' pcs pmeta pann where
    n: "n = Element tag props cs meta ann" and cs: "cs \<noteq> []"
    and l: "last cs = Element (ascii ''pre'') pprops pcs pmeta pann"
    and n1: "n1 = Element tag props (butlast cs @ [Element (ascii ''pre'') pprops' pcs pmeta pann]) meta ann"
    by (auto simp: post_visitor_def split: node.splits if_splits)
  have "properties_changed (cs ! i) ((butlast cs @ [Element (ascii ''pre'') pprops' pcs pmeta pann]) ! i)"
    if "i < length cs" for i
    using that cs l
    by (auto simp: nth_replace_last properties_changed_def last_conv_nth)
  with n n1 cs show ?thesis by simp
qed

lemma post_visitor_Text: "post_visitor n = Inr (Text v) \<Longrightarrow> n = Text v"
  by (auto simp: post_visitor_def split: node.splits if_splits)

lemma node_at_properties_changed:
  assumes "properties_changed a b" and "node_at a p = Some n" and "tag_of n \<noteq> Some (ascii ''pre'')"
  shows "node_at b p = Some n"
proof (cases p)
  case Nil
  with assms show ?thesis by (auto simp: properties_changed_def)
next
  case (Cons i q)
  from assms(1) have "kids b = kids a" by (auto simp: properties_changed_def)
  with assms(2) Cons show ?thesis by (auto split: if_splits)
qed

lemma post_pass_at:
  assumes "post_pass t = Inr t'" and "node_at t p = Some n"
    and "tag_of n \<noteq> Some (ascii ''pre'')"
  shows "\<exists>n1 cs'. post_visitor n = Inr n1 \<and> post_pass_list (kids n1) = Inr cs' \<and>
                  node_at t' p = Some (with_kids n1 cs')"
  using assms
proof (induction p arbitrary: t t')
  case Nil
  then show ?case using post_pass_unfold [of t t'] by auto
next
  case (Cons i q)
  from post_pass_unfold [OF Cons.prems(1)] obtain t1 cs' where
    v: "post_visitor t = Inr t1" and l: "post_pass_list (kids t1) = Inr cs'"
    and t': "t' = with_kids t1 cs'" by blast
  from Cons.prems(2) have i: "i < length (kids t)" and at: "node_at (kids t ! i) q = Some n"
    by (auto split: if_splits)
  from post_visitor_kids [OF v] i have len: "length (kids t1) = length (kids t)"
    and ch: "properties_changed (kids t ! i) (kids t1 ! i)" by auto
  from node_at_properties_changed [OF ch at Cons.prems(3)]
  have at1: "node_at (kids t1 ! i) q = Some n" .
  from post_pass_list_nth [OF l] i len have len': "length cs' = length (kids t)"
    and pi: "post_pass (kids t1 ! i) = Inr (cs' ! i)" by auto
  from Cons.IH [OF pi at1 Cons.prems(3)] obtain n1 cs'' where
    r: "post_visitor n = Inr n1" "post_pass_list (kids n1) = Inr cs''"
       "node_at (cs' ! i) q = Some (with_kids n1 cs'')" by blast
  have "\<forall>v. t1 \<noteq> Text v"
  proof
    fix v show "t1 \<noteq> Text v"
    proof
      assume "t1 = Text v"
      with v have "t = Text v" by (simp add: post_visitor_Text)
      with i show False by simp
    qed
  qed
  then have "kids t' = cs'" by (simp add: t' kids_with_kids)
  with i len' r show ?case by auto
qed

lemma node_at_append:
  "node_at t (p @ q) = (case node_at t p of None \<Rightarrow> None | Some n \<Rightarrow> node_at n q)"
  by (induction p arbitrary: t) auto

lemma prop_of_update: "prop_of (AList.update k v al) k' = (if k' = k then v else prop_of al k')"
  by (simp add: prop_of_def update_conv')

lemma prop_of_copy_if_truthy:
  "prop_of (copy_if_truthy k ann props) k' =
     (if k' = k \<and> truthy (prop_of ann k) then prop_of ann k else prop_of props k')"
  by (simp add: copy_if_truthy_def prop_of_update)

lemma pre_visitor_pre_code:
  "pre_visitor (Element (ascii ''pre'') props
       (Element (ascii ''code'') cprops (first # more) cmeta cann # rest) meta ann) =
   Inr (Element (ascii ''pre'') props
         (Element (ascii ''code'') cprops (first # more)
            (case (case cmeta of None \<Rightarrow> None | Some s \<Rightarrow> event_match s) of
               None \<Rightarrow> cmeta | Some (b, cap, aft) \<Rightarrow> Some (b @ aft)) cann # rest)
         meta
         (AList.update (ascii ''__style__'') (prop_of props (ascii ''__style__''))
           (AList.update (ascii ''__src__'') (prop_of props (ascii ''__src__''))
             (AList.update (ascii ''__rawString__'') (node_value first)
               (case (case cmeta of None \<Rightarrow> None | Some s \<Rightarrow> event_match s) of
                  None \<Rightarrow> ann
                | Some (b, cap, aft) \<Rightarrow> AList.update (ascii ''__event__'') (JStr cap) ann)))))"
proof -
  have "(case cmeta of None \<Rightarrow> None | Some s \<Rightarrow> if s = [] then None else event_match s)
      = (case cmeta of None \<Rightarrow> None | Some s \<Rightarrow> event_match s)"
    by (cases cmeta) auto
  then show ?thesis
    by (simp add: pre_visitor_def Let_def)
qed

lemma pre_visitor_other_tag:
  "tag \<noteq> ascii ''pre'' \<Longrightarrow> pre_visitor (Element tag props cs meta ann) = Inr (Element tag props cs meta ann)"
  by (simp add: pre_visitor_def)

lemma post_visitor_other_tag:
  "tag \<noteq> ascii ''div'' \<Longrightarrow> post_visitor (Element tag props cs meta ann) = Inr (Element tag props cs meta ann)"
  by (simp add: post_visitor_def)

lemma post_visitor_fragment:
  assumes "ascii ''data-rehype-pretty-code-fragment'' \<in> fst ` set dprops" and "cs \<noteq> []"
    and "last cs = Element (ascii ''pre'') pprops pcs pmeta pann"
  shows "post_visitor (Element (ascii ''div'') dprops cs dmeta dann) =
     Inr (Element (ascii ''div'') dprops
           (butlast cs @
            [Element (ascii ''pre'')
               (copy_if_truthy (ascii ''__style__'') dann
                 (copy_if_truthy (ascii ''__event__'') dann
                   (copy_if_truthy (ascii ''__src__'') dann
                     (AList.update (ascii ''__rawString__'') (prop_of dann (ascii ''__rawString__''))
                       (AList.update (ascii ''__withMeta__'')
                          (JBool (tag_of (hd cs) = Some (ascii ''div''))) pprops)))))
               pcs pmeta pann])
           dmeta dann)"
  using assms by (simp add: post_visitor_def)

lemma pre_pass_records:
  assumes "pre_pass t = Inr t'"
    and "node_at t p = Some (Element (ascii ''pre'') props
           (Element (ascii ''code'') cprops (Text raw # more) cmeta cann # rest) meta ann)"
  shows "\<exists>cs' ann'.
           node_at t' p = Some (Element (ascii ''pre'') props cs' meta ann') \<and>
           prop_of ann' (ascii ''__rawString__'') = JStr raw \<and>
           prop_of ann' (ascii ''__src__'') = prop_of props (ascii ''__src__'') \<and>
           prop_of ann' (ascii ''__style__'') = prop_of props (ascii ''__style__'') \<and>
           (\<forall>m b e a. cmeta = Some m \<and> event_match m = Some (b, e, a) \<longrightarrow>
              prop_of ann' (ascii ''__event__'') = JStr e \<and>
              (\<exists>ccs'. node_at t' (p @ [0]) =
                 Some (Element (ascii ''code'') cprops ccs' (Some (b @ a)) cann)))"
proof -
  let ?ev = "case cmeta of None \<Rightarrow> None | Some s \<Rightarrow> event_match s"
  let ?cmeta1 = "case ?ev of None \<Rightarrow> cmeta | Some (b, cap, aft) \<Rightarrow> Some (b @ aft)"
  let ?code1 = "Element (ascii ''code'') cprops (Text raw # more) ?cmeta1 cann"
  let ?ann1 = "case ?ev of None \<Rightarrow> ann
               | Some (b, cap, aft) \<Rightarrow> AList.update (ascii ''__event__'') (JStr cap) ann"
  let ?ann' = "AList.update (ascii ''__style__'') (prop_of props (ascii ''__style__''))
                 (AList.update (ascii ''__src__'') (prop_of props (ascii ''__src__''))
                   (AList.update (ascii ''__rawString__'') (JStr raw) ?ann1))"
  let ?n = "Element (ascii ''pre'') props
              (Element (ascii ''code'') cprops (Text raw # more) cmeta cann # rest) meta ann"
  have "tag_of ?n \<noteq> Some (ascii ''code'')" by simp
  from pre_pass_at [OF assms this] obtain n1 cs' where
    v: "pre_visitor ?n = Inr n1" and l: "pre_pass_list (kids n1) = Inr cs'"
    and at: "node_at t' p = Some (with_kids n1 cs')" by blast
  from v have n1: "n1 = Element (ascii ''pre'') props (?code1 # rest) meta ?ann'"
    by (simp add: pre_visitor_pre_code)
  then have at': "node_at t' p = Some (Element (ascii ''pre'') props cs' meta ?ann')"
    using at by simp
  have raw: "prop_of ?ann' (ascii ''__rawString__'') = JStr raw"
    by (simp add: prop_of_update)
  have src: "prop_of ?ann' (ascii ''__src__'') = prop_of props (ascii ''__src__'')"
    by (simp add: prop_of_update)
  have style: "prop_of ?ann' (ascii ''__style__'') = prop_of props (ascii ''__style__'')"
    by (simp add: prop_of_update)
  from pre_pass_list_nth [OF l] n1 have len: "0 < length cs'"
    and first: "pre_pass ?code1 = Inr (cs' ! 0)" by auto
  from pre_pass_unfold [OF first] obtain ccs' where
    c0: "cs' ! 0 = Element (ascii ''code'') cprops ccs' ?cmeta1 cann"
    by (auto simp: pre_visitor_other_tag)
  have child: "node_at t' (p @ [0]) = Some (Element (ascii ''code'') cprops ccs' ?cmeta1 cann)"
    using at' len c0 by (simp add: node_at_append)
  have ev: "prop_of ?ann' (ascii ''__event__'') = JStr e \<and>
        (\<exists>ccs'. node_at t' (p @ [0]) = Some (Element (ascii ''code'') cprops ccs' (Some (b @ a)) cann))"
    if "cmeta = Some m" "event_match m = Some (b, e, a)" for m b e a
    using that child by (simp add: prop_of_update)
  from at' raw src style ev show ?thesis by blast
qed

lemma post_pass_copies:
  assumes "post_pass u = Inr u'"
    and "node_at u q = Some (Element (ascii ''div'') dprops cs dmeta dann)"
    and "ascii ''data-rehype-pretty-code-fragment'' \<in> fst ` set dprops"
    and "cs \<noteq> []"
    and "last cs = Element (ascii ''pre'') pprops pcs pmeta pann"
  shows "\<exists>pprops' pcs'.
           node_at u' (q @ [length cs - 1]) = Some (Element (ascii ''pre'') pprops' pcs' pmeta pann) \<and>
           prop_of pprops' (ascii ''__rawString__'') = prop_of dann (ascii ''__rawString__'') \<and>
           (\<forall>k \<in> {ascii ''__src__'', ascii ''__event__'', ascii ''__style__''}.
              prop_of pprops' k = (if truthy (prop_of dann k) then prop_of dann k else prop_of pprops k))"
proof -
  let ?pprops' = "copy_if_truthy (ascii ''__style__'') dann
                 (copy_if_truthy (ascii ''__event__'') dann
                   (copy_if_truthy (ascii ''__src__'') dann
                     (AList.update (ascii ''__rawString__'') (prop_of dann (ascii ''__rawString__''))
                       (AList.update (ascii ''__withMeta__'')
                          (JBool (tag_of (hd cs) = Some (ascii ''div''))) pprops))))"
  let ?pre1 = "Element (ascii ''pre'') ?pprops' pcs pmeta pann"
  let ?n = "Element (ascii ''div'') dprops cs dmeta dann"
  let ?k = "length cs - 1"
  have "tag_of ?n \<noteq> Some (ascii ''pre'')" by simp
  from post_pass_at [OF assms(1,2) this] obtain n1 cs' where
    v: "post_visitor ?n = Inr n1" and l: "post_pass_list (kids n1) = Inr cs'"
    and at: "node_at u' q = Some (with_kids n1 cs')" by blast
  from v have n1: "n1 = Element (ascii ''div'') dprops (butlast cs @ [?pre1]) dmeta dann"
    by (simp add: post_visitor_fragment [OF assms(3,4,5)])
  then have at': "node_at u' q = Some (Element (ascii ''div'') dprops cs' dmeta dann)"
    using at by simp
  have k: "?k < length (butlast cs @ [?pre1])" and nth: "(butlast cs @ [?pre1]) ! ?k = ?pre1"
    using assms(4) by (simp_all add: nth_append)
  from post_pass_list_nth [OF l] n1 k nth have len: "?k < length cs'"
    and lastp: "post_pass ?pre1 = Inr (cs' ! ?k)" by auto
  from post_pass_unfold [OF lastp] obtain pcs' where
    ck: "cs' ! ?k = Element (ascii ''pre'') ?pprops' pcs' pmeta pann"
    by (auto simp: post_visitor_other_tag)
  have child: "node_at u' (q @ [?k]) = Some (Element (ascii ''pre'') ?pprops' pcs' pmeta pann)"
    using at' len ck by (simp add: node_at_append)
  have raw: "prop_of ?pprops' (ascii ''__rawString__'') = prop_of dann (ascii ''__rawString__'')"
    by (simp add: prop_of_copy_if_truthy prop_of_update)
  have rest: "\<forall>k \<in> {ascii ''__src__'', ascii ''__event__'', ascii ''__style__''}.
      prop_of ?pprops' k = (if truthy (prop_of dann k) then prop_of dann k else prop_of pprops k)"
    by (simp add: prop_of_copy_if_truthy prop_of_update)
  from child raw rest show ?thesis by blast
qed

lemma event_match_example:
  "event_match (ascii ''tsx event='' @ dquote # ascii ''copy'' @ [dquote])
     = Some (ascii ''tsx '', ascii ''copy'', [])"
  by (simp add: match_here_def event_prefix_def dquote_def ascii_Cons ascii_Nil code_unit_def)

lemma event_match_empty:
  "event_match (ascii ''event='' @ [dquote, dquote]) = Some ([], [], [])"
  by (simp add: match_here_def event_prefix_def dquote_def ascii_Cons ascii_Nil code_unit_def)

section \<open>Annotations of code blocks\<close>

text \<open>
  An empty event, \<open>event=""\<close>, is recorded by the first pass as the empty string, and the
  second pass does not copy it: the final \<open>pre\<close> has no \<open>__event__\<close> property.
\<close>

theorem empty_event_not_copied:
  "pre_pass (Root [Element (ascii ''pre'') []
       [Element (ascii ''code'') [] [Text (ascii ''x'')] (Some (ascii ''event='' @ [dquote, dquote])) []]
       None []])
   = Inr (Root [Element (ascii ''pre'') []
       [Element (ascii ''code'') [] [Text (ascii ''x'')] (Some []) []]
       None
       [(ascii ''__event__'', JStr []), (ascii ''__rawString__'', JStr (ascii ''x'')),
        (ascii ''__src__'', JUndefined), (ascii ''__style__'', JUndefined)]]) \<and>
   post_pass (Root [Element (ascii ''div'') [(ascii ''data-rehype-pretty-code-fragment'', JStr [])]
       [Element (ascii ''pre'') [] [] None []]
       None
       [(ascii ''__event__'', JStr []), (ascii ''__rawString__'', JStr (ascii ''x'')),
        (ascii ''__src__'', JUndefined), (ascii ''__style__'', JUndefined)]])
   = Inr (Root [Element (ascii ''div'') [(ascii ''data-rehype-pretty-code-fragment'', JStr [])]
       [Element (ascii ''pre'')
          [(ascii ''__withMeta__'', JBool False), (ascii ''__rawString__'', JStr (ascii ''x''))]
          [] None []]
       None
       [(ascii ''__event__'', JStr []), (ascii ''__rawString__'', JStr (ascii ''x'')),
        (ascii ''__src__'', JUndefined), (ascii ''__style__'', JUndefined)]]) \<and>
   map_of [(ascii ''__withMeta__'', JBool False), (ascii ''__rawString__'', JStr (ascii ''x''))]
     (ascii ''__event__'') = None"
proof (intro conjI)
  show "pre_pass (Root [Element (ascii ''pre'') []
       [Element (ascii ''code'') [] [Text (ascii ''x'')] (Some (ascii ''event='' @ [dquote, dquote])) []]
       None []])
   = Inr (Root [Element (ascii ''pre'') []
       [Element (ascii ''code'') [] [Text (ascii ''x'')] (Some []) []]
       None
       [(ascii ''__event__'', JStr []), (ascii ''__rawString__'', JStr (ascii ''x'')),
        (ascii ''__src__'', JUndefined), (ascii ''__style__'', JUndefined)]])"
    by (simp add: pre_pass.simps pre_visitor_def event_match_empty prop_of_def)
  show "post_pass (Root [Element (ascii ''div'') [(ascii ''data-rehype-pretty-code-fragment'', JStr [])]
       [Element (ascii ''pre'') [] [] None []]
       None
       [(ascii ''__event__'', JStr []), (ascii ''__rawString__'', JStr (ascii ''x'')),
        (ascii ''__src__'', JUndefined), (ascii ''__style__'', JUndefined)]])
   = Inr (Root [Element (ascii ''div'') [(ascii ''data-rehype-pretty-code-fragment'', JStr [])]
       [Element (ascii ''pre'')
          [(ascii ''__withMeta__'', JBool False), (ascii ''__rawString__'', JStr (ascii ''x''))]
          [] None []]
       None
       [(ascii ''__event__'', JStr []), (ascii ''__rawString__'', JStr (ascii ''x'')),
        (ascii ''__src__'', JUndefined), (ascii ''__style__'', JUndefined)]])"
    by (simp add: post_pass.simps post_visitor_def copy_if_truthy_def prop_of_def)
  show "map_of [(ascii ''__withMeta__'', JBool False), (ascii ''__rawString__'', JStr (ascii ''x''))]
     (ascii ''__event__'') = None"
    by simp
qed

text \<open>
  C7, amended. The pass before highlighting records, on every \<open>pre\<close> node whose first
  child is a \<open>code\<close> element that starts with a text node, the value of that text as
  \<open>__rawString__\<close>, the \<open>pre\<close>'s own \<open>__src__\<close> and \<open>__style__\<close> properties, and the
  value of \<open>event="..."\<close> in the code's meta string as \<open>__event__\<close>, removing that text
  from the meta. The pass after highlighting, on every \<open>div\<close> that has the property
  \<open>data-rehype-pretty-code-fragment\<close> and whose last child is a \<open>pre\<close> element, writes
  into the properties of that \<open>pre\<close> the \<open>__rawString__\<close> of the \<open>div\<close> node and each of
  \<open>__src__\<close>, \<open>__event__\<close>, \<open>__style__\<close> that is truthy on the \<open>div\<close> node; a falsy one
  leaves the property as it was.
\<close>

theorem annotations_flow:
  "(pre_pass t = Inr t' \<and>
    node_at t p = Some (Element (ascii ''pre'') props
       (Element (ascii ''code'') cprops (Text raw # more) cmeta cann # rest) meta ann) \<longrightarrow>
    (\<exists>cs' ann'.
       node_at t' p = Some (Element (ascii ''pre'') props cs' meta ann') \<and>
       prop_of ann' (ascii ''__rawString__'') = JStr raw \<and>
       prop_of ann' (ascii ''__src__'') = prop_of props (ascii ''__src__'') \<and>
       prop_of ann' (ascii ''__style__'') = prop_of props (ascii ''__style__'') \<and>
       (\<forall>m b e a. cmeta = Some m \<and> event_match m = Some (b, e, a) \<longrightarrow>
          prop_of ann' (ascii ''__event__'') = JStr e \<and>
          (\<exists>ccs'. node_at t' (p @ [0]) =
             Some (Element (ascii ''code'') cprops ccs' (Some (b @ a)) cann))))) \<and>
   (post_pass u = Inr u' \<and>
    node_at u q = Some (Element (ascii ''div'') dprops cs dmeta dann) \<and>
    ascii ''data-rehype-pretty-code-fragment'' \<in> fst ` set dprops \<and>
    cs \<noteq> [] \<and> last cs = Element (ascii ''pre'') pprops pcs pmeta pann \<longrightarrow>
    (\<exists>pprops' pcs'.
       node_at u' (q @ [length cs - 1]) = Some (Element (ascii ''pre'') pprops' pcs' pmeta pann) \<and>
       prop_of pprops' (ascii ''__rawString__'') = prop_of dann (ascii ''__rawString__'') \<and>
       (\<forall>k \<in> {ascii ''__src__'', ascii ''__event__'', ascii ''__style__''}.
          prop_of pprops' k =
            (if truthy (prop_of dann k) then prop_of dann k else prop_of pprops k))))"
proof (intro conjI impI)
  assume "pre_pass t = Inr t' \<and>
    node_at t p = Some (Element (ascii ''pre'') props
       (Element (ascii ''code'') cprops (Text raw # more) cmeta cann # rest) meta ann)"
  then show "\<exists>cs' ann'.
       node_at t' p = Some (Element (ascii ''pre'') props cs' meta ann') \<and>
       prop_of ann' (ascii ''__rawString__'') = JStr raw \<and>
       prop_of ann' (ascii ''__src__'') = prop_of props (ascii ''__src__'') \<and>
       prop_of ann' (ascii ''__style__'') = prop_of props (ascii ''__style__'') \<and>
       (\<forall>m b e a. cmeta = Some m \<and> event_match m = Some (b, e, a) \<longrightarrow>
          prop_of ann' (ascii ''__event__'') = JStr e \<and>
          (\<exists>ccs'. node_at t' (p @ [0]) =
             Some (Element (ascii ''code'') cprops ccs' (Some (b @ a)) cann)))"
    by (elim conjE) (rule pre_pass_records)
next
  assume "post_pass u = Inr u' \<and>
    node_at u q = Some (Element (ascii ''div'') dprops cs dmeta dann) \<and>
    ascii ''data-rehype-pretty-code-fragment'' \<in> fst ` set dprops \<and>
    cs \<noteq> [] \<and> last cs = Element (ascii ''pre'') pprops pcs pmeta pann"
  then show "\<exists>pprops' pcs'.
       node_at u' (q @ [length cs - 1]) = Some (Element (ascii ''pre'') pprops' pcs' pmeta pann) \<and>
       prop_of pprops' (ascii ''__rawString__'') = prop_of dann (ascii ''__rawString__'') \<and>
       (\<forall>k \<in> {ascii ''__src__'', ascii ''__event__'', ascii ''__style__''}.
          prop_of pprops' k =
            (if truthy (prop_of dann k) then prop_of dann k else prop_of pprops k))"
    by (elim conjE) (rule post_pass_copies)
qed

theorem annotations_flow_witness:
  "pre_pass (Root [Element (ascii ''pre'') [(ascii ''__src__'', JStr (ascii ''a.tsx''))]
          [Element (ascii ''code'') [] [Text (ascii ''x'')]
             (Some (ascii ''tsx event='' @ dquote # ascii ''copy'' @ [dquote])) []]
          None []])
   = Inr (Root [Element (ascii ''pre'') [(ascii ''__src__'', JStr (ascii ''a.tsx''))]
          [Element (ascii ''code'') [] [Text (ascii ''x'')] (Some (ascii ''tsx '')) []]
          None
          [(ascii ''__event__'', JStr (ascii ''copy'')), (ascii ''__rawString__'', JStr (ascii ''x'')),
           (ascii ''__src__'', JStr (ascii ''a.tsx'')), (ascii ''__style__'', JUndefined)]]) \<and>
   post_pass (Root [Element (ascii ''div'') [(ascii ''data-rehype-pretty-code-fragment'', JStr [])]
          [Element (ascii ''pre'') [] [] None []]
          None
          [(ascii ''__event__'', JStr (ascii ''copy'')), (ascii ''__rawString__'', JStr (ascii ''x'')),
           (ascii ''__src__'', JStr (ascii ''a.tsx'')), (ascii ''__style__'', JUndefined)]])
   = Inr (Root [Element (ascii ''div'') [(ascii ''data-rehype-pretty-code-fragment'', JStr [])]
          [Element (ascii ''pre'')
             [(ascii ''__withMeta__'', JBool False), (ascii ''__rawString__'', JStr (ascii ''x'')),
              (ascii ''__src__'', JStr (ascii ''a.tsx'')), (ascii ''__event__'', JStr (ascii ''copy''))]
             [] None []]
          None
          [(ascii ''__event__'', JStr (ascii ''copy'')), (ascii ''__rawString__'', JStr (ascii ''x'')),
           (ascii ''__src__'', JStr (ascii ''a.tsx'')), (ascii ''__style__'', JUndefined)]]) \<and>
   (\<exists>cs' ann'.
      node_at (Root [Element (ascii ''pre'') [(ascii ''__src__'', JStr (ascii ''a.tsx''))]
          [Element (ascii ''code'') [] [Text (ascii ''x'')] (Some (ascii ''tsx '')) []]
          None
          [(ascii ''__event__'', JStr (ascii ''copy'')), (ascii ''__rawString__'', JStr (ascii ''x'')),
           (ascii ''__src__'', JStr (ascii ''a.tsx'')), (ascii ''__style__'', JUndefined)]]) [0]
        = Some (Element (ascii ''pre'') [(ascii ''__src__'', JStr (ascii ''a.tsx''))] cs' None ann') \<and>
      prop_of ann' (ascii ''__rawString__'') = JStr (ascii ''x'') \<and>
      prop_of ann' (ascii ''__src__'') = JStr (ascii ''a.tsx'') \<and>
      prop_of ann' (ascii ''__event__'') = JStr (ascii ''copy'')) \<and>
   (\<exists>pprops' pcs'.
      node_at (Root [Element (ascii ''div'') [(ascii ''data-rehype-pretty-code-fragment'', JStr [])]
          [Element (ascii ''pre'')
             [(ascii ''__withMeta__'', JBool False), (ascii ''__rawString__'', JStr (ascii ''x'')),
              (ascii ''__src__'', JStr (ascii ''a.tsx'')), (ascii ''__event__'', JStr (ascii ''copy''))]
             [] None []]
          None
          [(ascii ''__event__'', JStr (ascii ''copy'')), (ascii ''__rawString__'', JStr (ascii ''x'')),
           (ascii ''__src__'', JStr (ascii ''a.tsx'')), (ascii ''__style__'', JUndefined)]]) [0, 0]
        = Some (Element (ascii ''pre'') pprops' pcs' None []) \<and>
      prop_of pprops' (ascii ''__rawString__'') = JStr (ascii ''x'') \<and>
      prop_of pprops' (ascii ''__src__'') = JStr (ascii ''a.tsx'') \<and>
      prop_of pprops' (ascii ''__event__'') = JStr (ascii ''copy'') \<and>
      prop_of pprops' (ascii ''__style__'') = JUndefined)"
proof -
  let ?meta = "ascii ''tsx event='' @ dquote # ascii ''copy'' @ [dquote]"
  let ?props = "[(ascii ''__src__'', JStr (ascii ''a.tsx''))]"
  let ?t = "Root [Element (ascii ''pre'') ?props
          [Element (ascii ''code'') [] [Text (ascii ''x'')] (Some ?meta) []] None []]"
  let ?ann = "[(ascii ''__event__'', JStr (ascii ''copy'')), (ascii ''__rawString__'', JStr (ascii ''x'')),
           (ascii ''__src__'', JStr (ascii ''a.tsx'')), (ascii ''__style__'', JUndefined)]"
  let ?t' = "Root [Element (ascii ''pre'') ?props
          [Element (ascii ''code'') [] [Text (ascii ''x'')] (Some (ascii ''tsx '')) []] None ?ann]"
  let ?marker = "[(ascii ''data-rehype-pretty-code-fragment'', JStr [])]"
  let ?u = "Root [Element (ascii ''div'') ?marker [Element (ascii ''pre'') [] [] None []] None ?ann]"
  let ?final = "[(ascii ''__withMeta__'', JBool False), (ascii ''__rawString__'', JStr (ascii ''x'')),
              (ascii ''__src__'', JStr (ascii ''a.tsx'')), (ascii ''__event__'', JStr (ascii ''copy''))]"
  let ?u' = "Root [Element (ascii ''div'') ?marker [Element (ascii ''pre'') ?final [] None []] None ?ann]"
  have pre: "pre_pass ?t = Inr ?t'"
    by (simp add: pre_pass.simps pre_visitor_def event_match_example prop_of_def)
  have post: "post_pass ?u = Inr ?u'"
    by (simp add: post_pass.simps post_visitor_def copy_if_truthy_def prop_of_def ascii_Cons)
  have at: "node_at ?t [0] = Some (Element (ascii ''pre'') ?props
          (Element (ascii ''code'') [] (Text (ascii ''x'') # []) (Some ?meta) [] # []) None [])"
    by simp
  have atu: "node_at ?u [0] = Some (Element (ascii ''div'') ?marker [Element (ascii ''pre'') [] [] None []] None ?ann)"
    by simp
  have h2: "ascii ''data-rehype-pretty-code-fragment'' \<in> fst ` set ?marker \<and>
      [Element (ascii ''pre'') [] [] None []] \<noteq> [] \<and>
      last [Element (ascii ''pre'') [] [] None []] = Element (ascii ''pre'') [] [] None []"
    by simp
  note flow = annotations_flow [of ?t ?t' "[0]" ?props "[]" "ascii ''x''" "[]" "Some ?meta" "[]" "[]" None "[]"
      ?u ?u' "[0]" ?marker "[Element (ascii ''pre'') [] [] None []]" None ?ann "[]" "[]" None "[]"]
  from flow pre at obtain cs' ann' where
    a: "node_at ?t' [0] = Some (Element (ascii ''pre'') ?props cs' None ann')"
       "prop_of ann' (ascii ''__rawString__'') = JStr (ascii ''x'')"
       "prop_of ann' (ascii ''__src__'') = prop_of ?props (ascii ''__src__'')"
    and ev: "\<forall>m b e a. Some ?meta = Some m \<and> event_match m = Some (b, e, a) \<longrightarrow>
          prop_of ann' (ascii ''__event__'') = JStr e \<and>
          (\<exists>ccs'. node_at ?t' ([0] @ [0]) = Some (Element (ascii ''code'') [] ccs' (Some (b @ a)) []))"
    by blast
  from ev event_match_example have e: "prop_of ann' (ascii ''__event__'') = JStr (ascii ''copy'')"
    by blast
  have s: "prop_of ?props (ascii ''__src__'') = JStr (ascii ''a.tsx'')"
    by (simp add: prop_of_def)
  from flow post atu h2 obtain pprops' pcs' where
    b: "node_at ?u' ([0] @ [length [Element (ascii ''pre'') [] [] None []] - 1])
          = Some (Element (ascii ''pre'') pprops' pcs' None [])"
       "prop_of pprops' (ascii ''__rawString__'') = prop_of ?ann (ascii ''__rawString__'')"
    and c: "\<forall>k \<in> {ascii ''__src__'', ascii ''__event__'', ascii ''__style__''}.
          prop_of pprops' k = (if truthy (prop_of ?ann k) then prop_of ?ann k else prop_of [] k)"
    by blast
  from b have b1: "node_at ?u' [0, 0] = Some (Element (ascii ''pre'') pprops' pcs' None [])"
    and b2: "prop_of pprops' (ascii ''__rawString__'') = JStr (ascii ''x'')"
    by (simp_all add: prop_of_def)
  from c have c1: "prop_of pprops' (ascii ''__src__'') = JStr (ascii ''a.tsx'')"
    and c2: "prop_of pprops' (ascii ''__event__'') = JStr (ascii ''copy'')"
    and c3: "prop_of pprops' (ascii ''__style__'') = JUndefined"
    by (simp_all add: prop_of_def ascii_Cons)
  from a(1,2) a(3) [unfolded s] e have first: "\<exists>cs' ann'.
      node_at ?t' [0] = Some (Element (ascii ''pre'') ?props cs' None ann') \<and>
      prop_of ann' (ascii ''__rawString__'') = JStr (ascii ''x'') \<and>
      prop_of ann' (ascii ''__src__'') = JStr (ascii ''a.tsx'') \<and>
      prop_of ann' (ascii ''__event__'') = JStr (ascii ''copy'')"
    by blast
  from b1 b2 c1 c2 c3 have second: "\<exists>pprops' pcs'.
      node_at ?u' [0, 0] = Some (Element (ascii ''pre'') pprops' pcs' None []) \<and>
      prop_of pprops' (ascii ''__rawString__'') = JStr (ascii ''x'') \<and>
      prop_of pprops' (ascii ''__src__'') = JStr (ascii ''a.tsx'') \<and>
      prop_of pprops' (ascii ''__event__'') = JStr (ascii ''copy'') \<and>
      prop_of pprops' (ascii ''__style__'') = JUndefined"
    by blast
  from pre post first second show ?thesis by (intro conjI)
qed

end
